theory Spec2Isabelle
  imports Main "HOL-Library.Sublist"
begin

section \<open>Python library primitives used by netsa.sql\<close>

subsection \<open>Errors\<close>

text \<open>
  Every exception the modelled code can raise is a value. \<open>KeyError\<close> is what a dictionary
  lookup \<open>params[p]\<close> raises on a missing key, \<open>ValueError\<close> what \<open>list.remove\<close> raises on
  a missing element; the other two are the module's own exception classes, carrying
  their message.
\<close>

datatype py_error =
    KeyError string
  | ValueError
  | sql_no_driver_exception string
  | sql_invalid_uri_exception string

subsection \<open>Regular expressions with backtracking\<close>

text \<open>
  The three patterns of the module use literal characters, character classes, the dot (under
  the DOTALL flag), concatenation, ordered alternation and the greedy star. \<open>re_run r s\<close>
  lists, in the order in which a backtracking matcher tries them, the remainders of \<open>s\<close>
  after every way of matching \<open>r\<close> at the start of \<open>s\<close>; the match that \<open>re.match\<close>
  reports is the first one. A greedy star tries one more iteration before it tries to stop.
  The star only follows iterations that consume input (the fuel \<open>length s\<close> is then never
  used up); every starred pattern of the module consumes at least one character.
\<close>

datatype re =
    In "char list"
  | NotIn "char list"
  | Dot
  | Seq re re
  | Alt re re
  | Star re

fun star_run :: "(string \<Rightarrow> string list) \<Rightarrow> nat \<Rightarrow> string \<Rightarrow> string list" where
  "star_run f 0 s = [s]"
| "star_run f (Suc n) s =
     concat (map (star_run f n) (filter (\<lambda>s'. length s' < length s) (f s))) @ [s]"

primrec re_run :: "re \<Rightarrow> string \<Rightarrow> string list" where
  "re_run (In cs) s = (case s of [] \<Rightarrow> [] | c # t \<Rightarrow> if c \<in> set cs then [t] else [])"
| "re_run (NotIn cs) s = (case s of [] \<Rightarrow> [] | c # t \<Rightarrow> if c \<notin> set cs then [t] else [])"
| "re_run Dot s = (case s of [] \<Rightarrow> [] | c # t \<Rightarrow> [t])"
| "re_run (Seq a b) s = concat (map (re_run b) (re_run a s))"
| "re_run (Alt a b) s = re_run a s @ re_run b s"
| "re_run (Star a) s = star_run (re_run a) (length s) s"

definition Plus :: "re \<Rightarrow> re" where
  "Plus r = Seq r (Star r)"

text \<open>
  \<open>pattern.match(sql, i)\<close>: the match object is represented by its end position
  \<open>m.end()\<close>; \<open>m.group()\<close> is then \<open>sql[i:m.end()]\<close>. None of the patterns has an
  anchor or a look-behind, so matching at \<open>i\<close> only reads \<open>sql[i:]\<close>.
\<close>

definition re_match :: "re \<Rightarrow> string \<Rightarrow> nat \<Rightarrow> nat option" where
  "re_match r sql i =
     (case re_run r (drop i sql) of [] \<Rightarrow> None | rest # _ \<Rightarrow> Some (length sql - length rest))"

definition match_group :: "string \<Rightarrow> nat \<Rightarrow> nat \<Rightarrow> string" where
  "match_group sql i e = take (e - i) (drop i sql)"

section \<open>The query patterns\<close>

definition lower_letters :: "char list" where
  "lower_letters = ''abcdefghijklmnopqrstuvwxyz''"

definition upper_letters :: "char list" where
  "upper_letters = ''ABCDEFGHIJKLMNOPQRSTUVWXYZ''"

definition digit_chars :: "char list" where
  "digit_chars = ''0123456789''"

text \<open>\<^verbatim>\<open>(?xsm) : [a-zA-Z_][a-zA-Z_0-9]*\<close>\<close>

definition query_param_re :: re where
  "query_param_re =
     Seq (In '':'')
       (Seq (In (lower_letters @ upper_letters @ ''_''))
            (Star (In (lower_letters @ upper_letters @ ''_'' @ digit_chars))))"

text \<open>
  \<^verbatim>\<open>(?xsm) ' (?: [^'\\] | \\. | '' | '[ \t]*\n[ \t*]') * ' \<close>:
  under the verbose flag the blanks between the parts are not part of the pattern, those
  inside the brackets are. The last class of the fourth alternative is \<^verbatim>\<open>[ \t*]\<close>: one
  character that is a blank, a tab or a star.
\<close>

definition query_quote_re :: re where
  "query_quote_re =
     Seq (In [CHR 0x27])
       (Seq (Star
              (Alt (NotIn [CHR 0x27, CHR 0x5C])
              (Alt (Seq (In [CHR 0x5C]) Dot)
              (Alt (Seq (In [CHR 0x27]) (In [CHR 0x27]))
                   (Seq (In [CHR 0x27])
                   (Seq (Star (In [CHR 0x20, CHR 0x09]))
                   (Seq (In [CHR 0x0A])
                   (Seq (In [CHR 0x20, CHR 0x09, CHR ''*''])
                        (In [CHR 0x27])))))))))
            (In [CHR 0x27]))"

text \<open>\<^verbatim>\<open>(?xsm) ([^:'] | ::)+\<close>\<close>

definition query_other_re :: re where
  "query_other_re = Plus (Alt (NotIn [CHR '':'', CHR 0x27]) (Seq (In '':'') (In '':'')))"

section \<open>Rewriting the parameters of a query\<close>

text \<open>
  \<open>_map_params\<close>. The two callbacks are Python closures, which may keep state
  (\<open>param_func_2\<close> appends to a list, \<open>param_func_numeric\<close> counts): a callback takes the
  state and returns its string with the new state. The loop is written as the source has
  it, with the position \<open>i\<close>, the flag \<open>m\<close> (a match object is always true) and the
  accumulated \<open>result\<close>; that it returns is not assumed.
\<close>

type_synonym 'st callback = "string \<Rightarrow> 'st \<Rightarrow> string \<times> 'st"

definition noop :: "'st callback" where
  "noop x st = (x, st)"

partial_function (option) map_params_loop ::
  "'st callback \<Rightarrow> 'st callback \<Rightarrow> string \<Rightarrow> nat \<Rightarrow> bool \<Rightarrow> string \<Rightarrow> 'st \<Rightarrow> (string \<times> 'st) option"
where
  "map_params_loop param_func other_func sql i m result st =
     (if m \<and> i < length sql then
        (case re_match query_param_re sql i of
           Some e \<Rightarrow>
             (case param_func (drop 1 (match_group sql i e)) st of
                (r, st') \<Rightarrow> map_params_loop param_func other_func sql e True (result @ r) st')
         | None \<Rightarrow>
        (case re_match query_quote_re sql i of
           Some e \<Rightarrow>
             (case other_func (match_group sql i e) st of
                (r, st') \<Rightarrow> map_params_loop param_func other_func sql e True (result @ r) st')
         | None \<Rightarrow>
        (case re_match query_other_re sql i of
           Some e \<Rightarrow>
             (case other_func (match_group sql i e) st of
                (r, st') \<Rightarrow> map_params_loop param_func other_func sql e True (result @ r) st')
         | None \<Rightarrow>
             (case other_func [sql ! i] st of
                (r, st') \<Rightarrow>
                  map_params_loop param_func other_func sql (i + 1) True (result @ r) st'))))
      else Some (result, st))"

declare map_params_loop.simps [code]

definition map_params ::
  "string \<Rightarrow> 'st callback \<Rightarrow> 'st callback option \<Rightarrow> 'st \<Rightarrow> (string \<times> 'st) option" where
  "map_params sql param_func other_func st =
     (let other_func' = (case other_func of None \<Rightarrow> noop | Some f \<Rightarrow> f)
      in map_params_loop param_func other_func' sql 0 True [] st)"

text \<open>
  \<open>_map_params_positional\<close>. \<open>param_func_2\<close> appends the name to the list \<open>param_names\<close>
  of the enclosing call and then calls \<open>param_func\<close>, which keeps whatever state of its own;
  \<open>other_func\<close> is handed on as it is and does not touch \<open>param_names\<close>.
\<close>

definition param_func_2 :: "'s callback \<Rightarrow> (string list \<times> 's) callback" where
  "param_func_2 param_func param_name =
     (\<lambda>(param_names, s). case param_func param_name s of
        (r, s') \<Rightarrow> (r, (param_names @ [param_name], s')))"

definition beside_names :: "'s callback \<Rightarrow> (string list \<times> 's) callback" where
  "beside_names other_func x =
     (\<lambda>(param_names, s). case other_func x s of (r, s') \<Rightarrow> (r, (param_names, s')))"

definition map_params_positional ::
  "string \<Rightarrow> 's callback \<Rightarrow> 's callback option \<Rightarrow> 's \<Rightarrow> ((string \<times> string list) \<times> 's) option" where
  "map_params_positional sql param_func other_func s =
     (case map_params sql (param_func_2 param_func) (map_option beside_names other_func) ([], s) of
        None \<Rightarrow> None
      | Some (result, (param_names, s')) \<Rightarrow> Some ((result, param_names), s'))"

section \<open>Query templates\<close>

text \<open>
  A \<open>db_query\<close> holds the default SQL (\<open>_sql\<close>) and the dictionary of variants
  (\<open>_variants\<close>, the keyword arguments of the constructor).
\<close>

record db_query =
  q_sql :: string
  q_variants :: "string \<rightharpoonup> string"

fun get_variant_sql :: "db_query \<Rightarrow> string list \<Rightarrow> string" where
  "get_variant_sql self [] = q_sql self"
| "get_variant_sql self (v # accepted_variants) =
     (case q_variants self v of
        Some t \<Rightarrow> t
      | None \<Rightarrow> get_variant_sql self accepted_variants)"

text \<open>\<open>[params[p] for p in param_names]\<close>: the first missing key raises \<open>KeyError\<close>.\<close>

fun lookup_params :: "(string \<rightharpoonup> 'v) \<Rightarrow> string list \<Rightarrow> py_error + 'v list" where
  "lookup_params params [] = Inr []"
| "lookup_params params (p # param_names) =
     (case params p of
        None \<Rightarrow> Inl (KeyError p)
      | Some v \<Rightarrow>
          (case lookup_params params param_names of
             Inl e \<Rightarrow> Inl e
           | Inr vs \<Rightarrow> Inr (v # vs)))"

definition positional_result ::
  "(string \<rightharpoonup> 'v) \<Rightarrow> ((string \<times> string list) \<times> 's) option \<Rightarrow> (py_error + string \<times> 'v list) option" where
  "positional_result params r =
     (case r of
        None \<Rightarrow> None
      | Some ((sql, param_names), _) \<Rightarrow>
          Some (case lookup_params params param_names of
                  Inl e \<Rightarrow> Inl e
                | Inr args \<Rightarrow> Inr (sql, args)))"

text \<open>\<open>"%d" % n\<close> for a natural number.\<close>

fun str_of_nat :: "nat \<Rightarrow> string" where
  "str_of_nat n =
     (if n < 10 then [digit_chars ! n] else str_of_nat (n div 10) @ [digit_chars ! (n mod 10)])"

text \<open>\<open>x.replace(old, new)\<close> where \<open>old\<close> is one character.\<close>

definition str_replace :: "char \<Rightarrow> string \<Rightarrow> string \<Rightarrow> string" where
  "str_replace old new x = concat (map (\<lambda>c. if c = old then new else [c]) x)"

definition param_func_qmark :: "unit callback" where
  "param_func_qmark param_name st = (''?'', st)"

definition get_variant_qmark_params ::
  "db_query \<Rightarrow> string list \<Rightarrow> (string \<rightharpoonup> 'v) \<Rightarrow> (py_error + string \<times> 'v list) option" where
  "get_variant_qmark_params self accepted_variants params =
     positional_result params
       (map_params_positional (get_variant_sql self accepted_variants) param_func_qmark None ())"

text \<open>The state of \<open>param_func_numeric\<close> is the counter \<open>param_num[0]\<close>, which starts at 0.\<close>

definition param_func_numeric :: "nat callback" where
  "param_func_numeric param_name param_num = ('':'' @ str_of_nat (param_num + 1), param_num + 1)"

definition get_variant_numeric_params ::
  "db_query \<Rightarrow> string list \<Rightarrow> (string \<rightharpoonup> 'v) \<Rightarrow> (py_error + string \<times> 'v list) option" where
  "get_variant_numeric_params self accepted_variants params =
     positional_result params
       (map_params_positional (get_variant_sql self accepted_variants) param_func_numeric None 0)"

definition param_func_named :: "unit callback" where
  "param_func_named param_name st = ('':'' @ param_name, st)"

definition get_variant_named_params ::
  "db_query \<Rightarrow> string list \<Rightarrow> (string \<rightharpoonup> 'v) \<Rightarrow> (string \<times> (string \<rightharpoonup> 'v)) option" where
  "get_variant_named_params self accepted_variants params =
     (case map_params (get_variant_sql self accepted_variants) param_func_named None () of
        None \<Rightarrow> None
      | Some (sql, _) \<Rightarrow> Some (sql, params))"

definition other_func_format :: "'st callback" where
  "other_func_format x st = (str_replace CHR ''%'' ''%%'' x, st)"

definition param_func_format :: "unit callback" where
  "param_func_format param_name st = (''%s'', st)"

definition get_variant_format_params ::
  "db_query \<Rightarrow> string list \<Rightarrow> (string \<rightharpoonup> 'v) \<Rightarrow> (py_error + string \<times> 'v list) option" where
  "get_variant_format_params self accepted_variants params =
     positional_result params
       (map_params_positional (get_variant_sql self accepted_variants)
          param_func_format (Some other_func_format) ())"

definition other_func_pyformat :: "'st callback" where
  "other_func_pyformat x st = (str_replace CHR ''%'' ''%%'' x, st)"

definition param_func_pyformat :: "unit callback" where
  "param_func_pyformat param_name st = (''%('' @ param_name @ '')s'', st)"

definition get_variant_pyformat_params ::
  "db_query \<Rightarrow> string list \<Rightarrow> (string \<rightharpoonup> 'v) \<Rightarrow> (string \<times> (string \<rightharpoonup> 'v)) option" where
  "get_variant_pyformat_params self accepted_variants params =
     (case map_params (get_variant_sql self accepted_variants)
             param_func_pyformat (Some other_func_pyformat) () of
        None \<Rightarrow> None
      | Some (sql, _) \<Rightarrow> Some (sql, params))"

section \<open>Database URIs\<close>

subsection \<open>String operations\<close>

text \<open>\<open>s.find(c)\<close> for one character: the index of its first occurrence, or -1.\<close>

definition str_find :: "string \<Rightarrow> char \<Rightarrow> int" where
  "str_find s c = (if c \<in> set s then int (length (takeWhile (\<lambda>x. x \<noteq> c) s)) else - 1)"

text \<open>\<open>s.lower()\<close> on a byte string: the 26 capital letters change.\<close>

definition str_lower :: "string \<Rightarrow> string" where
  "str_lower s =
     map (\<lambda>c. case map_of (zip upper_letters lower_letters) c of Some l \<Rightarrow> l | None \<Rightarrow> c) s"

definition startswith :: "string \<Rightarrow> string \<Rightarrow> bool" where
  "startswith s p = (take (length p) s = p)"

text \<open>\<open>s.split(sep)\<close> and \<open>s.split(sep, 1)\<close> for a one-character separator.\<close>

fun str_split :: "string \<Rightarrow> char \<Rightarrow> string list" where
  "str_split [] sep = [[]]"
| "str_split (c # cs) sep =
     (if c = sep then [] # str_split cs sep
      else (case str_split cs sep of
              [] \<Rightarrow> [[c]]
            | x # xs \<Rightarrow> (c # x) # xs))"

definition str_split1 :: "string \<Rightarrow> char \<Rightarrow> string list" where
  "str_split1 s sep =
     (let i = str_find s sep
      in if i < 0 then [s] else [take (nat i) s, drop (nat (i + 1)) s])"

text \<open>
  \<open>urllib.unquote\<close>: a percent sign followed by two hexadecimal digits is replaced by the
  character with that code; any other percent sign stays. \<open>urllib.unquote_plus\<close> first
  replaces every plus sign by a blank.
\<close>

definition hex_digit :: "char \<Rightarrow> nat option" where
  "hex_digit c =
     map_of (zip ''0123456789ABCDEFabcdef''
                 [0, 1, 2, 3, 4, 5, 6, 7, 8, 9, 10, 11, 12, 13, 14, 15, 10, 11, 12, 13, 14, 15]) c"

fun unquote :: "string \<Rightarrow> string" where
  "unquote [] = []"
| "unquote [c] = [c]"
| "unquote [c, a] = c # unquote [a]"
| "unquote (c # a # b # s) =
     (if c = CHR ''%'' then
        (case (hex_digit a, hex_digit b) of
           (Some h, Some l) \<Rightarrow> char_of (16 * h + l) # unquote s
         | _ \<Rightarrow> c # unquote (a # b # s))
      else c # unquote (a # b # s))"

definition unquote_plus :: "string \<Rightarrow> string" where
  "unquote_plus s = unquote (str_replace CHR ''+'' '' '' s)"

subsection \<open>The parser\<close>

text \<open>
  The dictionary that \<open>db_parse_uri\<close> returns has a fixed set of keys. A value that may be
  \<open>None\<close> is an option; an element of \<open>params\<close> and \<open>query\<close> is the tuple of the one
  or two strings that \<open>split('=', 1)\<close> gives, here a list.
\<close>

record parsed_uri =
  scheme :: string
  user :: "string option"
  password :: "string option"
  host :: "string option"
  port :: "string option"
  path :: string
  params :: "string list list"
  query :: "string list list"
  fragment :: "string option"

text \<open>
  The step that occurs six times in the parser:
  \<open>i = x.find(c)\<close>, and if \<open>i >= 0\<close> then \<open>(a, b) = (x[:i], x[i+1:])\<close>.
\<close>

definition cut_at :: "string \<Rightarrow> char \<Rightarrow> (string \<times> string) option" where
  "cut_at x c =
     (let i = str_find x c
      in if i \<ge> 0 then Some (take (nat i) x, drop (nat (i + 1)) x) else None)"

text \<open>
  \<open>for c in '/?#': i = uri.find(c); if i >= 0: break\<close>, with \<open>i = len(uri)\<close> in the
  \<open>else\<close> branch of the loop.
\<close>

fun netloc_end :: "string \<Rightarrow> char list \<Rightarrow> int" where
  "netloc_end uri [] = int (length uri)"
| "netloc_end uri (c # cs) =
     (let i = str_find uri c in if i \<ge> 0 then i else netloc_end uri cs)"

text \<open>The part of the parser under \<open>if uri.startswith('//')\<close>.\<close>

definition parse_netloc ::
  "string \<Rightarrow> (string option \<times> string option \<times> string option \<times> string option) \<times> string" where
  "parse_netloc uri0 =
     (let uri1 = drop 2 uri0;
          i = netloc_end uri1 ''/?#'';
          host0 = take (nat i) uri1;
          uri2 = drop (nat i) uri1;
          (user1, password1, host1) =
            (case cut_at host0 CHR ''@'' of
               None \<Rightarrow> (None, None, host0)
             | Some (user0, host') \<Rightarrow>
                 (case cut_at user0 CHR '':'' of
                    None \<Rightarrow> (Some user0, None, host')
                  | Some (user', password') \<Rightarrow> (Some user', Some password', host')));
          (host2, port2) =
            (case cut_at host1 CHR '':'' of
               None \<Rightarrow> (host1, None)
             | Some (host', port') \<Rightarrow> (host', Some port'))
      in ((user1, password1, Some host2, port2), uri2))"

definition db_parse_uri :: "string \<Rightarrow> py_error + parsed_uri" where
  "db_parse_uri uri =
     (let i = str_find uri CHR '':'' in
      if i < 0 then Inl (sql_invalid_uri_exception uri)
      else
        let scheme0 = str_lower (take (nat i) uri);
            uri0 = drop (nat (i + 1)) uri;
            ((user0, password0, host0, port0), uri1) =
              (if startswith uri0 ''//'' then parse_netloc uri0
               else ((None, None, None, None), uri0));
            (uri2, frag) =
              (case cut_at uri1 CHR ''#'' of
                 None \<Rightarrow> (uri1, None)
               | Some (u, f) \<Rightarrow> (u, Some f));
            (uri3, query0) =
              (case cut_at uri2 CHR ''?'' of
                 None \<Rightarrow> (uri2, None)
               | Some (u, q) \<Rightarrow> (u, Some q));
            (uri4, params0) =
              (case cut_at uri3 CHR '';'' of
                 None \<Rightarrow> (uri3, None)
               | Some (u, p) \<Rightarrow> (u, Some p));
            params1 =
              (case params0 of
                 Some ps \<Rightarrow> map (\<lambda>p. map unquote (str_split1 p CHR ''='')) (str_split ps CHR '';'')
               | None \<Rightarrow> []);
            query1 =
              (case query0 of
                 Some qs \<Rightarrow> map (\<lambda>p. map unquote_plus (str_split1 p CHR ''='')) (str_split qs CHR ''&'')
               | None \<Rightarrow> [])
        in Inr \<lparr>scheme = scheme0, user = user0, password = password0, host = host0,
                 port = port0, path = uri4, params = params1, query = query1,
                 fragment = frag\<rparr>)"

section \<open>The driver registry\<close>

text \<open>
  The module state: the list \<open>_drivers\<close> and the flag \<open>_drivers_init_done\<close>. A driver is an
  object; \<open>'d\<close> is the type of driver objects, compared as \<open>in\<close> and \<open>remove\<close> compare
  them. The lock only serialises the operations and is not modelled.
\<close>

record 'd registry =
  drivers :: "'d list"
  drivers_init_done :: bool

definition register_driver :: "'d \<Rightarrow> 'd registry \<Rightarrow> 'd registry" where
  "register_driver driver st =
     (if driver \<notin> set (drivers st) then st\<lparr>drivers := drivers st @ [driver]\<rparr> else st)"

text \<open>\<open>_drivers.remove(driver)\<close> removes the first occurrence and raises \<open>ValueError\<close> without one.\<close>

definition unregister_driver :: "'d \<Rightarrow> 'd registry \<Rightarrow> py_error + 'd registry" where
  "unregister_driver driver st =
     (if driver \<in> set (drivers st) then Inr (st\<lparr>drivers := remove1 driver (drivers st)\<rparr>)
      else Inl ValueError)"

text \<open>
  Modelled from the spec: the driver modules \<open>netsa.sql.driver_*\<close> that \<open>_drivers_init\<close>
  imports are not part of the sources. Importing one that loads registers its driver, and
  one that fails to load is skipped; \<open>found\<close> lists the drivers of the modules that load,
  in the order of the import.
\<close>

definition drivers_init :: "'d list \<Rightarrow> 'd registry \<Rightarrow> 'd registry" where
  "drivers_init found st =
     (if drivers_init_done st then st
      else (fold register_driver found st)\<lparr>drivers_init_done := True\<rparr>)"

definition get_drivers :: "'d list \<Rightarrow> 'd registry \<Rightarrow> 'd list \<times> 'd registry" where
  "get_drivers found st =
     (let st' = (if \<not> drivers_init_done st then drivers_init found st else st)
      in (drivers st', st'))"

text \<open>
  The methods of the driver objects: \<open>can_handle d scheme\<close> is \<open>d.can_handle(scheme)\<close>,
  \<open>connect d uri user password\<close> is \<open>d.connect(uri, user, password)\<close>, where \<open>None\<close> is
  Python's \<open>None\<close>, and likewise \<open>create_pool\<close>.
\<close>

record ('d, 'c, 'p, 'k) driver_methods =
  can_handle :: "'d \<Rightarrow> string \<Rightarrow> bool"
  connect :: "'d \<Rightarrow> string \<Rightarrow> string option \<Rightarrow> string option \<Rightarrow> 'c option"
  create_pool :: "'d \<Rightarrow> string \<Rightarrow> string option \<Rightarrow> string option \<Rightarrow> 'k \<Rightarrow> 'p option"

fun connect_scan ::
  "('d, 'c, 'p, 'k) driver_methods \<Rightarrow> parsed_uri \<Rightarrow> string \<Rightarrow> string option \<Rightarrow> string option \<Rightarrow>
   'd list \<Rightarrow> py_error + 'c option" where
  "connect_scan M parsed uri usr pwd [] = Inl (sql_no_driver_exception (scheme parsed))"
| "connect_scan M parsed uri usr pwd (d # ds) =
     (if can_handle M d (scheme parsed) then Inr (connect M d uri usr pwd)
      else connect_scan M parsed uri usr pwd ds)"

definition db_connect ::
  "('d, 'c, 'p, 'k) driver_methods \<Rightarrow> 'd list \<Rightarrow> 'd registry \<Rightarrow> string \<Rightarrow> string option \<Rightarrow>
   string option \<Rightarrow> (py_error + 'c option) \<times> 'd registry" where
  "db_connect M found st uri usr pwd =
     (case db_parse_uri uri of
        Inl e \<Rightarrow> (Inl e, st)
      | Inr parsed_uri \<Rightarrow>
          (case get_drivers found st of
             (ds, st') \<Rightarrow> (connect_scan M parsed_uri uri usr pwd ds, st')))"

fun create_pool_scan ::
  "('d, 'c, 'p, 'k) driver_methods \<Rightarrow> parsed_uri \<Rightarrow> string \<Rightarrow> string option \<Rightarrow> string option \<Rightarrow>
   'k \<Rightarrow> 'd list \<Rightarrow> py_error + 'p" where
  "create_pool_scan M parsed uri usr pwd kw [] = Inl (sql_no_driver_exception (scheme parsed))"
| "create_pool_scan M parsed uri usr pwd kw (d # ds) =
     (if can_handle M d (scheme parsed) then
        (case create_pool M d uri usr pwd kw of
           Some pool \<Rightarrow> Inr pool
         | None \<Rightarrow> create_pool_scan M parsed uri usr pwd kw ds)
      else create_pool_scan M parsed uri usr pwd kw ds)"

definition db_create_pool ::
  "('d, 'c, 'p, 'k) driver_methods \<Rightarrow> 'd list \<Rightarrow> 'd registry \<Rightarrow> string \<Rightarrow> string option \<Rightarrow>
   string option \<Rightarrow> 'k \<Rightarrow> (py_error + 'p) \<times> 'd registry" where
  "db_create_pool M found st uri usr pwd kw =
     (case db_parse_uri uri of
        Inl e \<Rightarrow> (Inl e, st)
      | Inr parsed_uri \<Rightarrow>
          (case get_drivers found st of
             (ds, st') \<Rightarrow> (create_pool_scan M parsed_uri uri usr pwd kw ds, st')))"

section \<open>Notions used to state the properties\<close>

subsection \<open>The calls of the two callbacks\<close>

text \<open>
  What \<open>_map_params\<close> emits is the sequence of its calls of the callbacks: \<open>param_func\<close> with
  a name, \<open>other_func\<close> with a piece of text. \<open>calls sql\<close> runs \<open>_map_params\<close> with two
  callbacks that return the empty string and append their call to a list. The text a call
  stands for is the name after its colon, or the piece itself.
\<close>

datatype call = ParamCall string | OtherCall string

definition record_param :: "call list callback" where
  "record_param param_name cs = ([], cs @ [ParamCall param_name])"

definition record_other :: "call list callback" where
  "record_other x cs = ([], cs @ [OtherCall x])"

definition calls :: "string \<Rightarrow> call list option" where
  "calls sql = map_option snd (map_params sql record_param (Some record_other) [])"

fun call_text :: "call \<Rightarrow> string" where
  "call_text (ParamCall n) = CHR '':'' # n"
| "call_text (OtherCall x) = x"

fun call_names :: "call list \<Rightarrow> string list" where
  "call_names [] = []"
| "call_names (ParamCall n # cs) = n # call_names cs"
| "call_names (OtherCall x # cs) = call_names cs"

text \<open>Making the calls of a list one after the other, appending what they return.\<close>

fun replay :: "'st callback \<Rightarrow> 'st callback \<Rightarrow> call list \<Rightarrow> string \<times> 'st \<Rightarrow> string \<times> 'st" where
  "replay param_func other_func [] acc = acc"
| "replay param_func other_func (ParamCall n # cs) (res, st) =
     (case param_func n st of (r, st') \<Rightarrow> replay param_func other_func cs (res @ r, st'))"
| "replay param_func other_func (OtherCall x # cs) (res, st) =
     (case other_func x st of (r, st') \<Rightarrow> replay param_func other_func cs (res @ r, st'))"

text \<open>
  One turn of the loop at position \<open>i\<close>: the call it makes and the position it goes on
  from; and the calls of at most \<open>n\<close> turns from \<open>i\<close>.
\<close>

definition next_call :: "string \<Rightarrow> nat \<Rightarrow> call \<times> nat" where
  "next_call sql i =
     (case re_match query_param_re sql i of
        Some e \<Rightarrow> (ParamCall (drop 1 (match_group sql i e)), e)
      | None \<Rightarrow>
     (case re_match query_quote_re sql i of
        Some e \<Rightarrow> (OtherCall (match_group sql i e), e)
      | None \<Rightarrow>
     (case re_match query_other_re sql i of
        Some e \<Rightarrow> (OtherCall (match_group sql i e), e)
      | None \<Rightarrow> (OtherCall [sql ! i], i + 1))))"

fun calls_from :: "nat \<Rightarrow> string \<Rightarrow> nat \<Rightarrow> call list" where
  "calls_from 0 sql i = []"
| "calls_from (Suc n) sql i =
     (if i < length sql
      then (case next_call sql i of (c, e) \<Rightarrow> c # calls_from n sql e)
      else [])"

text \<open>The least number of characters a pattern consumes.\<close>

fun min_len :: "re \<Rightarrow> nat" where
  "min_len (In cs) = 1"
| "min_len (NotIn cs) = 1"
| "min_len Dot = 1"
| "min_len (Seq a b) = min_len a + min_len b"
| "min_len (Alt a b) = min (min_len a) (min_len b)"
| "min_len (Star a) = 0"

subsection \<open>Runs of the registry operations\<close>

datatype 'd reg_op = Register 'd | Unregister 'd | GetDrivers

text \<open>An \<open>unregister_driver\<close> that raises leaves the registry as it was.\<close>

fun apply_reg_op :: "'d list \<Rightarrow> 'd reg_op \<Rightarrow> 'd registry \<Rightarrow> 'd registry" where
  "apply_reg_op found (Register d) st = register_driver d st"
| "apply_reg_op found (Unregister d) st =
     (case unregister_driver d st of Inl e \<Rightarrow> st | Inr st' \<Rightarrow> st')"
| "apply_reg_op found GetDrivers st = snd (get_drivers found st)"

definition initial_registry :: "'d registry" where
  "initial_registry = \<lparr>drivers = [], drivers_init_done = False\<rparr>"

definition run_reg_ops :: "'d list \<Rightarrow> 'd reg_op list \<Rightarrow> 'd registry" where
  "run_reg_ops found ops = fold (apply_reg_op found) ops initial_registry"

text \<open>A driver that accepts every scheme and opens no connection and no pool.\<close>

definition declining_driver :: "(nat, unit, unit, unit) driver_methods" where
  "declining_driver =
     \<lparr>can_handle = (\<lambda>d scheme. True),
      connect = (\<lambda>d uri usr pwd. None),
      create_pool = (\<lambda>d uri usr pwd kw. None)\<rparr>"

section \<open>Properties of the patterns\<close>

lemma star_run_suffix:
  assumes "\<And>s x. x \<in> set (f s) \<Longrightarrow> suffix x s"
  shows "x \<in> set (star_run f n s) \<Longrightarrow> suffix x s"
proof (induction n arbitrary: s x)
  case 0
  then show ?case by simp
next
  case (Suc n)
  from Suc.prems have "x = s \<or> (\<exists>y \<in> set (f s). x \<in> set (star_run f n y))"
    by auto
  then show ?case
  proof
    assume "x = s" then show ?thesis by simp
  next
    assume "\<exists>y \<in> set (f s). x \<in> set (star_run f n y)"
    then obtain y where y: "y \<in> set (f s)" "x \<in> set (star_run f n y)" by blast
    from Suc.IH [OF y(2)] assms [OF y(1)] show ?thesis
      by (rule suffix_order.trans)
  qed
qed

lemma re_run_consumes:
  "x \<in> set (re_run r s) \<Longrightarrow> \<exists>p. s = p @ x \<and> min_len r \<le> length p"
proof (induction r arbitrary: s x)
  case (In cs)
  then show ?case by (cases s) (auto split: if_splits)
next
  case (NotIn cs)
  then show ?case by (cases s) (auto split: if_splits)
next
  case Dot
  then show ?case by (cases s) auto
next
  case (Seq a b)
  from Seq.prems obtain y where y: "y \<in> set (re_run a s)" "x \<in> set (re_run b y)"
    by auto
  from Seq.IH(1) [OF y(1)] obtain p where p: "s = p @ y" "min_len a \<le> length p" by blast
  from Seq.IH(2) [OF y(2)] obtain q where q: "y = q @ x" "min_len b \<le> length q" by blast
  have "s = (p @ q) @ x \<and> min_len (Seq a b) \<le> length (p @ q)"
    using p q by simp
  then show ?case by blast
next
  case (Alt a b)
  from Alt.prems have "x \<in> set (re_run a s) \<or> x \<in> set (re_run b s)" by simp
  then show ?case
  proof
    assume "x \<in> set (re_run a s)"
    from Alt.IH(1) [OF this] show ?thesis by auto
  next
    assume "x \<in> set (re_run b s)"
    from Alt.IH(2) [OF this] show ?thesis by auto
  qed
next
  case (Star a)
  have "\<And>s x. x \<in> set (re_run a s) \<Longrightarrow> suffix x s"
    using Star.IH by (fastforce simp: suffix_def)
  from star_run_suffix [of "re_run a", OF this] Star.prems
  have "suffix x s" by simp
  then show ?case by (auto simp: suffix_def)
qed

lemma re_match_bounds:
  assumes "re_match r sql i = Some e" and "i \<le> length sql"
  shows "i + min_len r \<le> e \<and> e \<le> length sql \<and> drop i sql = match_group sql i e @ drop e sql"
proof -
  from assms(1) obtain rest rs where rr: "re_run r (drop i sql) = rest # rs"
    and e: "e = length sql - length rest"
    by (auto simp: re_match_def split: list.splits)
  then have "rest \<in> set (re_run r (drop i sql))" by simp
  from re_run_consumes [OF this] obtain p where p: "drop i sql = p @ rest" "min_len r \<le> length p"
    by blast
  have len: "length sql - i = length p + length rest"
    using p(1) by (metis length_append length_drop)
  have e': "e = i + length p" using e len assms(2) by simp
  have "drop e sql = rest"
    using p(1) e' by (metis add.commute append_eq_conv_conj drop_drop)
  moreover have "match_group sql i e = p"
    using p(1) e' by (simp add: match_group_def)
  ultimately show ?thesis using p e' len assms(2) by simp
qed

section \<open>Properties of the rewriting loop\<close>

lemma replay_append:
  "replay pf oth (cs @ ds) acc = replay pf oth ds (replay pf oth cs acc)"
proof (induction cs arbitrary: acc)
  case Nil
  then show ?case by simp
next
  case (Cons c cs)
  obtain res st where acc: "acc = (res, st)" by (cases acc)
  show ?case
    by (cases c) (simp_all add: acc Cons.IH split: prod.splits)
qed

lemma replay_Cons:
  "replay pf oth (c # cs) acc = replay pf oth cs (replay pf oth [c] acc)"
  using replay_append [of pf oth "[c]" cs acc] by simp

lemma loop_done:
  "\<not> i < length sql \<Longrightarrow> map_params_loop pf oth sql i m res st = Some (res, st)"
  by (subst map_params_loop.simps) simp

lemma loop_step:
  assumes "i < length sql"
  shows "map_params_loop pf oth sql i True res st =
           (case next_call sql i of
              (c, e) \<Rightarrow> (case replay pf oth [c] (res, st) of
                           (res', st') \<Rightarrow> map_params_loop pf oth sql e True res' st'))"
  using assms
  by (subst map_params_loop.simps)
     (simp add: next_call_def split: option.splits prod.splits)

lemma param_match_colon:
  assumes "re_match query_param_re sql i = Some e"
  shows "take 1 (drop i sql) = '':''"
proof -
  from assms have "re_run query_param_re (drop i sql) \<noteq> []"
    by (auto simp: re_match_def split: list.splits)
  then show ?thesis
    by (cases "drop i sql") (auto simp: query_param_re_def split: if_splits)
qed

lemma min_len_query_res:
  "min_len query_param_re = 2" "min_len query_quote_re = 2" "min_len query_other_re = 1"
  by (simp_all add: query_param_re_def query_quote_re_def query_other_re_def Plus_def)

lemma next_call_bounds:
  assumes "i < length sql" and "next_call sql i = (c, e)"
  shows "i < e \<and> e \<le> length sql \<and> call_text c = match_group sql i e"
proof (cases "re_match query_param_re sql i")
  case (Some e')
  with assms(2) have c: "c = ParamCall (drop 1 (match_group sql i e))" and e: "e' = e"
    by (auto simp: next_call_def)
  from re_match_bounds [OF Some] assms(1) e
  have b: "i + 2 \<le> e" "e \<le> length sql" "drop i sql = match_group sql i e @ drop e sql"
    by (simp_all add: min_len_query_res)
  have "length (match_group sql i e) \<ge> 2"
    using b by (simp add: match_group_def)
  moreover from param_match_colon [OF Some] b(3)
  have "take 1 (match_group sql i e @ drop e sql) = '':''" by simp
  ultimately have "match_group sql i e = CHR '':'' # drop 1 (match_group sql i e)"
    by (cases "match_group sql i e") simp_all
  with b c show ?thesis by simp
next
  case None
  note np = this
  show ?thesis
  proof (cases "re_match query_quote_re sql i")
    case (Some e')
    with np assms(2) have c: "c = OtherCall (match_group sql i e)" and e: "e' = e"
      by (auto simp: next_call_def)
    from re_match_bounds [OF Some] assms(1) e c show ?thesis
      by (simp add: min_len_query_res)
  next
    case None
    note nq = this
    show ?thesis
    proof (cases "re_match query_other_re sql i")
      case (Some e')
      with np nq assms(2) have c: "c = OtherCall (match_group sql i e)" and e: "e' = e"
        by (auto simp: next_call_def)
      from re_match_bounds [OF Some] assms(1) e c show ?thesis
        by (simp add: min_len_query_res)
    next
      case None
      with np nq assms(2) have c: "c = OtherCall [sql ! i]" and e: "e = i + 1"
        by (simp_all add: next_call_def)
      have "match_group sql i (i + 1) = [sql ! i]"
        using assms(1) by (simp add: match_group_def take_Suc_conv_app_nth hd_drop_conv_nth take_Suc)
      with c e assms(1) show ?thesis by simp
    qed
  qed
qed

lemma group_drop:
  "i \<le> e \<Longrightarrow> e \<le> length sql \<Longrightarrow> drop i sql = match_group sql i e @ drop e sql"
  unfolding match_group_def
  by (metis add_diff_inverse_nat append_take_drop_id drop_drop leD add.commute)

lemma loop_replay:
  "length sql - i \<le> n \<Longrightarrow>
   map_params_loop pf oth sql i True res st = Some (replay pf oth (calls_from n sql i) (res, st))"
proof (induction n arbitrary: i res st)
  case 0
  then show ?case by (simp add: loop_done)
next
  case (Suc n)
  show ?case
  proof (cases "i < length sql")
    case False
    then show ?thesis by (simp add: loop_done)
  next
    case True
    obtain c e where ce: "next_call sql i = (c, e)" by (cases "next_call sql i")
    from next_call_bounds [OF True ce] have b: "i < e" "e \<le> length sql" by simp_all
    obtain res' st' where r: "replay pf oth [c] (res, st) = (res', st')"
      by (cases "replay pf oth [c] (res, st)")
    have "length sql - e \<le> n" using Suc.prems b by simp
    from Suc.IH [OF this]
    have "map_params_loop pf oth sql e True res' st'
            = Some (replay pf oth (calls_from n sql e) (res', st'))" .
    moreover have "replay pf oth (calls_from (Suc n) sql i) (res, st)
            = replay pf oth (calls_from n sql e) (res', st')"
      using True ce r replay_Cons [of pf oth c "calls_from n sql e" "(res, st)"] by simp
    moreover have "map_params_loop pf oth sql i True res st
            = map_params_loop pf oth sql e True res' st'"
      by (subst loop_step [OF True]) (simp add: ce r)
    ultimately show ?thesis by simp
  qed
qed

lemma calls_from_text:
  "length sql - i \<le> n \<Longrightarrow> concat (map call_text (calls_from n sql i)) = drop i sql"
proof (induction n arbitrary: i)
  case 0
  then show ?case by simp
next
  case (Suc n)
  show ?case
  proof (cases "i < length sql")
    case False
    then show ?thesis by simp
  next
    case True
    obtain c e where ce: "next_call sql i = (c, e)" by (cases "next_call sql i")
    from next_call_bounds [OF True ce]
    have b: "i < e" "e \<le> length sql" "call_text c = match_group sql i e" by simp_all
    have "length sql - e \<le> n" using Suc.prems b by simp
    from Suc.IH [OF this] have "concat (map call_text (calls_from n sql e)) = drop e sql" .
    moreover have "drop i sql = match_group sql i e @ drop e sql"
      using group_drop [of i e sql] b by simp
    ultimately show ?thesis using True ce b by simp
  qed
qed

lemma map_params_replay:
  "map_params sql pf oth st =
     Some (replay pf (case oth of None \<Rightarrow> noop | Some f \<Rightarrow> f)
             (calls_from (length sql) sql 0) ([], st))"
  by (simp add: map_params_def loop_replay)

lemma replay_record:
  "replay record_param record_other cs (res, acc) = (res, acc @ cs)"
proof (induction cs arbitrary: acc)
  case Nil
  then show ?case by simp
next
  case (Cons c cs)
  then show ?case
    by (cases c) (simp_all add: record_param_def record_other_def)
qed

lemma calls_eq: "calls sql = Some (calls_from (length sql) sql 0)"
  by (simp add: calls_def map_params_replay replay_record)

lemma calls_text: "calls sql = Some cs \<Longrightarrow> concat (map call_text cs) = sql"
  using calls_from_text [of sql 0 "length sql"] by (simp add: calls_eq)

lemma loop_total:
  "\<exists>y. map_params_loop pf oth sql i m res st = Some y"
proof (cases m)
  case True
  then show ?thesis using loop_replay [of sql i "length sql - i" pf oth res st] by simp
next
  case False
  then show ?thesis by (subst map_params_loop.simps) simp
qed

lemma loop_fall_through:
  assumes "i < length sql" "re_match query_param_re sql i = None"
    "re_match query_quote_re sql i = None" "re_match query_other_re sql i = None"
  shows "map_params_loop pf oth sql i True res st =
           (case oth [sql ! i] st of
              (r, st') \<Rightarrow> map_params_loop pf oth sql (i + 1) True (res @ r) st')"
  using assms by (subst map_params_loop.simps) simp

lemma loop_progress:
  assumes "i < length sql"
  shows "\<exists>c e. i < e \<and> e \<le> length sql \<and>
           (\<forall>res st. map_params_loop pf oth sql i True res st =
              (case replay pf oth [c] (res, st) of
                 (res', st') \<Rightarrow> map_params_loop pf oth sql e True res' st'))"
proof -
  obtain c e where ce: "next_call sql i = (c, e)" by (cases "next_call sql i")
  from next_call_bounds [OF assms ce] have "i < e" "e \<le> length sql" by simp_all
  moreover have "\<forall>res st. map_params_loop pf oth sql i True res st =
              (case replay pf oth [c] (res, st) of
                 (res', st') \<Rightarrow> map_params_loop pf oth sql e True res' st')"
    by (simp add: loop_step [OF assms] ce)
  ultimately show ?thesis by blast
qed

text \<open>
  C9. \<open>_map_params\<close> returns on every template, whatever the callbacks, and so does its
  loop from every position. Where none of the three patterns matches, the loop calls
  \<open>other_func\<close> with the one character at the position and goes on at the next position;
  and every turn of the loop makes one call and goes on at a later position, not beyond the
  end of the template.
\<close>

theorem map_params_terminates:
  "(\<exists>y. map_params sql param_func other_func st = Some y)
   \<and> (\<exists>y. map_params_loop param_func oth sql i m result st = Some y)
   \<and> (i < length sql \<and> re_match query_param_re sql i = None
        \<and> re_match query_quote_re sql i = None \<and> re_match query_other_re sql i = None
      \<longrightarrow> map_params_loop param_func oth sql i True result st =
            (case oth [sql ! i] st of
               (r, st') \<Rightarrow> map_params_loop param_func oth sql (i + 1) True (result @ r) st'))
   \<and> (i < length sql
      \<longrightarrow> (\<exists>c e. i < e \<and> e \<le> length sql \<and>
             (\<forall>res s. map_params_loop param_func oth sql i True res s =
                (case replay param_func oth [c] (res, s) of
                   (res', s') \<Rightarrow> map_params_loop param_func oth sql e True res' s'))))"
proof -
  have "\<exists>y. map_params sql param_func other_func st = Some y"
    by (simp add: map_params_replay)
  moreover note loop_total [of param_func oth sql i m result st]
  moreover have "i < length sql \<and> re_match query_param_re sql i = None
        \<and> re_match query_quote_re sql i = None \<and> re_match query_other_re sql i = None
      \<longrightarrow> map_params_loop param_func oth sql i True result st =
            (case oth [sql ! i] st of
               (r, st') \<Rightarrow> map_params_loop param_func oth sql (i + 1) True (result @ r) st')"
    using loop_fall_through [of i sql param_func oth result st] by blast
  moreover have "i < length sql
      \<longrightarrow> (\<exists>c e. i < e \<and> e \<le> length sql \<and>
             (\<forall>res s. map_params_loop param_func oth sql i True res s =
                (case replay param_func oth [c] (res, s) of
                   (res', s') \<Rightarrow> map_params_loop param_func oth sql e True res' s')))"
    using loop_progress [of i sql param_func oth] by blast
  ultimately show ?thesis by blast
qed

theorem map_params_terminates_witness:
  "(0 < length ''':a'' \<and> re_match query_param_re ''':a'' 0 = None
        \<and> re_match query_quote_re ''':a'' 0 = None \<and> re_match query_other_re ''':a'' 0 = None)
   \<and> map_params_loop record_param record_other ''':a'' 0 True [] [] =
            (case record_other [''':a'' ! 0] [] of
               (r, st') \<Rightarrow> map_params_loop record_param record_other ''':a'' (0 + 1) True ([] @ r) st')
   \<and> calls ''':a'' = Some [OtherCall [CHR 0x27], ParamCall ''a'']"
proof -
  have h: "0 < length ''':a'' \<and> re_match query_param_re ''':a'' 0 = None
        \<and> re_match query_quote_re ''':a'' 0 = None \<and> re_match query_other_re ''':a'' 0 = None"
    by code_simp
  have c: "calls ''':a'' = Some [OtherCall [CHR 0x27], ParamCall ''a'']"
    by code_simp
  from map_params_terminates [of "''':a''" record_param None "[]" record_other 0 True "[]"] h c
  show ?thesis by blast
qed

lemma replay_stateless:
  assumes "\<And>n s. pf n s = (f n, s)" and "\<And>x s. oth x s = (g x, s)"
  shows "replay pf oth cs (res, st) = (res @ concat (map (case_call f g) cs), st)"
proof (induction cs arbitrary: res)
  case Nil
  then show ?case by simp
next
  case (Cons c cs)
  then show ?case by (cases c) (simp_all add: assms)
qed

lemma case_call_text: "case_call (\<lambda>n. CHR '':'' # n) (\<lambda>x. x) = call_text"
proof
  fix c show "case_call (\<lambda>n. CHR '':'' # n) (\<lambda>x. x) c = call_text c" by (cases c) simp_all
qed

lemma map_params_named:
  "map_params sql param_func_named None () = Some (sql, ())"
proof -
  have "replay param_func_named noop (calls_from (length sql) sql 0) ([], ())
          = ([] @ concat (map (case_call (\<lambda>n. CHR '':'' # n) (\<lambda>x. x)) (calls_from (length sql) sql 0)), ())"
    by (rule replay_stateless) (simp_all add: param_func_named_def noop_def)
  also have "\<dots> = (sql, ())"
    using calls_from_text [of sql 0 "length sql"] by (simp add: case_call_text)
  finally show ?thesis by (simp add: map_params_replay)
qed

text \<open>
  C6. Rewriting in the named style returns the selected SQL text as it is, with the bindings
  of the caller as they are; and the texts of the calls that \<open>_map_params\<close> makes on a
  template, put together in order, are the template.
\<close>

theorem named_params_lossless:
  "get_variant_named_params q accepted_variants bindings
     = Some (get_variant_sql q accepted_variants, bindings)
   \<and> (\<exists>cs. calls sql = Some cs \<and> concat (map call_text cs) = sql)"
  by (simp add: get_variant_named_params_def map_params_named calls_eq calls_from_text)

lemma replay_positional:
  "replay (param_func_2 pf) (beside_names oth) cs (res, (names, s)) =
     (case replay pf oth cs (res, s) of (res', s') \<Rightarrow> (res', (names @ call_names cs, s')))"
proof (induction cs arbitrary: res names s)
  case Nil
  then show ?case by simp
next
  case (Cons c cs)
  then show ?case
    by (cases c) (simp_all add: param_func_2_def beside_names_def split: prod.splits)
qed

lemma beside_names_noop: "beside_names noop = noop"
  by (rule ext, rule ext) (simp add: beside_names_def noop_def split: prod.splits)

lemma positional_callbacks:
  "(case map_option beside_names oth of None \<Rightarrow> noop | Some f \<Rightarrow> f)
     = beside_names (case oth of None \<Rightarrow> noop | Some f \<Rightarrow> f)"
  by (cases oth) (simp_all add: beside_names_noop)

lemma map_params_positional_replay:
  "map_params_positional sql pf oth s =
     (case replay pf (case oth of None \<Rightarrow> noop | Some f \<Rightarrow> f)
             (calls_from (length sql) sql 0) ([], s) of
        (res, s') \<Rightarrow> Some ((res, call_names (calls_from (length sql) sql 0)), s'))"
proof -
  have "map_params sql (param_func_2 pf) (map_option beside_names oth) ([], s) =
          Some (replay (param_func_2 pf)
                  (beside_names (case oth of None \<Rightarrow> noop | Some f \<Rightarrow> f))
                  (calls_from (length sql) sql 0) ([], ([], s)))"
    unfolding map_params_replay positional_callbacks ..
  then show ?thesis
    by (simp add: map_params_positional_def replay_positional split: prod.splits)
qed

lemma quote_not_param:
  assumes "re_match query_quote_re sql i = Some e"
  shows "re_match query_param_re sql i = None"
proof -
  from assms have "re_run query_quote_re (drop i sql) \<noteq> []"
    by (auto simp: re_match_def split: list.splits)
  then obtain t where "drop i sql = CHR 0x27 # t"
    by (cases "drop i sql") (auto simp: query_quote_re_def split: if_splits)
  then show ?thesis
    by (simp add: re_match_def query_param_re_def)
qed

lemma loop_quoted:
  assumes "i < length sql" "re_match query_quote_re sql i = Some e"
  shows "map_params_loop pf oth sql i True res st =
           (case oth (match_group sql i e) st of
              (r, st') \<Rightarrow> map_params_loop pf oth sql e True (res @ r) st')"
  using assms quote_not_param [OF assms(2)]
  by (subst map_params_loop.simps) simp

lemma re_match_shift:
  assumes "i \<le> length sql"
  shows "re_match r (pre @ sql) (length pre + i) = map_option (\<lambda>e. length pre + e) (re_match r sql i)"
proof (cases "re_run r (drop i sql)")
  case Nil
  then show ?thesis by (simp add: re_match_def)
next
  case (Cons rest rs)
  then have "rest \<in> set (re_run r (drop i sql))" by simp
  from re_run_consumes [OF this] obtain p where "drop i sql = p @ rest" by blast
  then have "length rest \<le> length sql"
    by (metis length_append length_drop le_add2 le_trans diff_le_self)
  then show ?thesis using Cons by (simp add: re_match_def)
qed

lemma match_group_shift:
  "match_group (pre @ sql) (length pre + i) (length pre + e) = match_group sql i e"
  by (simp add: match_group_def)

lemma next_call_shift:
  assumes "i < length sql"
  shows "next_call (pre @ sql) (length pre + i) =
           (case next_call sql i of (c, e) \<Rightarrow> (c, length pre + e))"
  using assms
  by (simp add: next_call_def re_match_shift match_group_shift nth_append
           split: option.splits)

lemma calls_from_shift:
  "calls_from n (pre @ sql) (length pre + i) = calls_from n sql i"
proof (induction n arbitrary: i)
  case 0
  then show ?case by simp
next
  case (Suc n)
  show ?case
  proof (cases "i < length sql")
    case False
    then show ?thesis by simp
  next
    case True
    obtain c e where ce: "next_call sql i = (c, e)" by (cases "next_call sql i")
    with True Suc.IH [of e] show ?thesis
      by (simp add: next_call_shift)
  qed
qed

lemma calls_from_fuel:
  assumes "length sql - i \<le> n" "length sql - i \<le> m"
  shows "calls_from n sql i = calls_from m sql i"
proof -
  have "Some (replay record_param record_other (calls_from n sql i) ([], []))
      = Some (replay record_param record_other (calls_from m sql i) ([], []))"
    using loop_replay [OF assms(1), of record_param record_other "[]" "[]"]
          loop_replay [OF assms(2), of record_param record_other "[]" "[]"]
    by simp
  then show ?thesis by (simp add: replay_record)
qed

lemma calls_quoted:
  assumes "re_match query_quote_re (lit @ rest) 0 = Some (length lit)"
  shows "calls (lit @ rest) = Some (OtherCall lit # calls_from (length rest) rest 0)"
proof -
  from re_match_bounds [OF assms] have "2 \<le> length lit"
    by (simp add: min_len_query_res)
  then obtain k where k: "length lit + length rest = Suc k" "length rest \<le> k"
    by (cases "length lit + length rest") auto
  have nc: "next_call (lit @ rest) 0 = (OtherCall lit, length lit)"
    using assms quote_not_param [OF assms] by (simp add: next_call_def match_group_def)
  have "calls_from k (lit @ rest) (length lit + 0) = calls_from k rest 0"
    by (rule calls_from_shift)
  also have "\<dots> = calls_from (length rest) rest 0"
    using k(2) by (intro calls_from_fuel) simp_all
  finally show ?thesis
    using k(1) \<open>2 \<le> length lit\<close> nc by (simp add: calls_eq)
qed

lemma match_group_length:
  "i \<le> e \<Longrightarrow> e \<le> length sql \<Longrightarrow> length (match_group sql i e) = e - i"
  by (simp add: match_group_def)

lemma calls_from_split:
  "length sql - j \<le> n \<Longrightarrow> calls_from n sql j = before @ rest \<Longrightarrow>
     length sql - (j + length (concat (map call_text before))) \<le> n - length before
     \<and> rest = calls_from (n - length before) sql (j + length (concat (map call_text before)))"
proof (induction before arbitrary: n j)
  case Nil
  then show ?case by simp
next
  case (Cons b bs)
  from Cons.prems(2) obtain m where n: "n = Suc m"
    by (cases n) simp_all
  from Cons.prems(2) n have j: "j < length sql"
    by (auto split: if_splits)
  obtain c e where ce: "next_call sql j = (c, e)" by (cases "next_call sql j")
  from Cons.prems(2) n j ce have c: "c = b" and tl: "calls_from m sql e = bs @ rest"
    by simp_all
  from next_call_bounds [OF j ce]
  have b: "j < e" "e \<le> length sql" "call_text c = match_group sql j e" by simp_all
  have len: "length (call_text b) = e - j"
    using b c by (simp add: match_group_length)
  have fuel: "length sql - e \<le> m" using Cons.prems(1) n b by simp
  from Cons.IH [OF fuel tl]
  have ih: "length sql - (e + length (concat (map call_text bs))) \<le> m - length bs"
    "rest = calls_from (m - length bs) sql (e + length (concat (map call_text bs)))"
    by simp_all
  have pos: "j + length (concat (map call_text (b # bs))) = e + length (concat (map call_text bs))"
    using len b by simp
  show ?case
    unfolding pos using ih n by simp
qed

lemma calls_at_quote:
  assumes cs: "calls sql = Some (before @ c # after)"
    and q: "re_match query_quote_re sql (length (concat (map call_text before))) = Some e"
  shows "c = OtherCall (match_group sql (length (concat (map call_text before))) e)
         \<and> calls (drop e sql) = Some after"
proof -
  let ?i = "length (concat (map call_text before))"
  let ?k = "length sql - length before"
  from cs have cf: "calls_from (length sql) sql 0 = before @ c # after"
    by (simp add: calls_eq)
  from calls_from_split [of sql 0 "length sql" before "c # after"] cf
  have fuel: "length sql - ?i \<le> ?k" and rest: "c # after = calls_from ?k sql ?i"
    by simp_all
  from rest obtain k' where k: "?k = Suc k'"
    by (cases ?k) simp_all
  from rest k have i: "?i < length sql"
    by (auto split: if_splits)
  have nc: "next_call sql ?i = (OtherCall (match_group sql ?i e), e)"
    using q quote_not_param [OF q] by (simp add: next_call_def)
  from rest k i nc have c: "c = OtherCall (match_group sql ?i e)"
    and a: "after = calls_from k' sql e"
    by simp_all
  from re_match_bounds [OF q] i have e: "?i < e" "e \<le> length sql"
    by (simp_all add: min_len_query_res)
  have "calls_from k' (take e sql @ drop e sql) (length (take e sql) + 0)
          = calls_from k' (drop e sql) 0"
    by (rule calls_from_shift)
  then have "calls_from k' sql e = calls_from k' (drop e sql) 0"
    using e by simp
  also have "\<dots> = calls_from (length (drop e sql)) (drop e sql) 0"
    using fuel k e by (intro calls_from_fuel) simp_all
  finally show ?thesis using c a by (simp add: calls_eq)
qed

lemma positional_names:
  "\<exists>t s'. map_params_positional sql pf oth s
             = Some ((t, call_names (calls_from (length sql) sql 0)), s')"
proof -
  obtain res s' where "replay pf (case oth of None \<Rightarrow> noop | Some f \<Rightarrow> f)
             (calls_from (length sql) sql 0) ([], s) = (res, s')"
    by (cases "replay pf (case oth of None \<Rightarrow> noop | Some f \<Rightarrow> f)
             (calls_from (length sql) sql 0) ([], s)")
  then have "map_params_positional sql pf oth s
             = Some ((res, call_names (calls_from (length sql) sql 0)), s')"
    by (simp add: map_params_positional_replay)
  then show ?thesis by blast
qed

lemma call_names_append: "call_names (xs @ ys) = call_names xs @ call_names ys"
  by (induction xs rule: call_names.induct) simp_all


text \<open>
  C5, as stated, fails: the scan knows no comments. In the template
  \<open>-- don't\<close>, line break, \<open>select ':x'\<close> the quote pattern matches the literal \<open>':x'\<close>
  at its opening quote, position 16; but the scan takes the apostrophe of the comment for an
  opening quote and the opening quote of the literal for its end, and then records \<open>x\<close>.
\<close>

theorem quoted_literal_comment_counterexample:
  "re_match query_quote_re (''-- don't'' @ [CHR 0x0A] @ ''select ':x'' @ [CHR 0x27]) 16 = Some 20
   \<and> match_group (''-- don't'' @ [CHR 0x0A] @ ''select ':x'' @ [CHR 0x27]) 16 20
       = CHR 0x27 # '':x'' @ [CHR 0x27]
   \<and> map_params_positional (''-- don't'' @ [CHR 0x0A] @ ''select ':x'' @ [CHR 0x27])
         param_func_qmark None ()
       = Some ((''-- don't'' @ [CHR 0x0A] @ ''select '?'' @ [CHR 0x27], [''x'']), ())"
  by code_simp

text \<open>
  C5, amended. A quoted string literal whose opening quote the scan comes to stand at holds
  no parameter. Wherever the loop stands at a position where the quote pattern matches, the
  parameter pattern does not match there, the whole literal goes to \<open>other_func\<close> in one
  call, the list of recorded names stays as it is and the loop goes on behind the literal.
  For a whole template: when the calls made before some call spell the template up to a
  position where the quote pattern matches, that call is the one call for the whole
  literal, the calls after it are the calls for the rest of the template, and the names a
  positional rewriting records are those before the literal and those after it. In
  particular \<open>select '::x' where a = :a\<close> in the qmark style has the one placeholder
  \<open>?\<close>, whose recorded name is \<open>a\<close>, and so has \<open>select ':x' where a = :a\<close>.
\<close>

theorem quoted_literal_inert:
  "(i < length sql \<and> re_match query_quote_re sql i = Some e \<longrightarrow>
      re_match query_param_re sql i = None
      \<and> map_params_loop (param_func_2 pf) (beside_names oth) sql i True result (names, s) =
          (case oth (match_group sql i e) s of
             (r, s') \<Rightarrow> map_params_loop (param_func_2 pf) (beside_names oth) sql e True
                          (result @ r) (names, s')))
   \<and> (calls tpl = Some (before @ c # after)
        \<and> re_match query_quote_re tpl (length (concat (map call_text before))) = Some e'
      \<longrightarrow> c = OtherCall (match_group tpl (length (concat (map call_text before))) e')
          \<and> calls (drop e' tpl) = Some after
          \<and> (\<exists>t u. map_params_positional tpl pf' oth' s0
                       = Some ((t, call_names before @ call_names after), u)))
   \<and> map_params_positional ''select '::x' where a = :a'' param_func_qmark None ()
       = Some ((''select '::x' where a = ?'', [''a'']), ())
   \<and> get_variant_qmark_params \<lparr>q_sql = ''select '::x' where a = :a'', q_variants = Map.empty\<rparr>
         [] [''a'' \<mapsto> v]
       = Some (Inr (''select '::x' where a = ?'', [v]))
   \<and> map_params_positional ''select ':x' where a = :a'' param_func_qmark None ()
       = Some ((''select ':x' where a = ?'', [''a'']), ())"
proof -
  have 1: "i < length sql \<and> re_match query_quote_re sql i = Some e \<longrightarrow>
      re_match query_param_re sql i = None
      \<and> map_params_loop (param_func_2 pf) (beside_names oth) sql i True result (names, s) =
          (case oth (match_group sql i e) s of
             (r, s') \<Rightarrow> map_params_loop (param_func_2 pf) (beside_names oth) sql e True
                          (result @ r) (names, s'))"
    by (auto simp: quote_not_param loop_quoted beside_names_def split: prod.splits)
  have 2: "calls tpl = Some (before @ c # after)
        \<and> re_match query_quote_re tpl (length (concat (map call_text before))) = Some e'
      \<longrightarrow> c = OtherCall (match_group tpl (length (concat (map call_text before))) e')
          \<and> calls (drop e' tpl) = Some after
          \<and> (\<exists>t u. map_params_positional tpl pf' oth' s0
                       = Some ((t, call_names before @ call_names after), u))"
  proof
    assume h: "calls tpl = Some (before @ c # after)
        \<and> re_match query_quote_re tpl (length (concat (map call_text before))) = Some e'"
    from calls_at_quote [of tpl before c after e'] h
    have c: "c = OtherCall (match_group tpl (length (concat (map call_text before))) e')"
      and a: "calls (drop e' tpl) = Some after"
      by simp_all
    from h have "calls_from (length tpl) tpl 0 = before @ c # after"
      by (simp add: calls_eq)
    then have "call_names (calls_from (length tpl) tpl 0) = call_names before @ call_names after"
      by (simp add: c call_names_append)
    with positional_names [of tpl pf' oth' s0]
    have "\<exists>t u. map_params_positional tpl pf' oth' s0
                       = Some ((t, call_names before @ call_names after), u)"
      by simp
    with c a show "c = OtherCall (match_group tpl (length (concat (map call_text before))) e')
          \<and> calls (drop e' tpl) = Some after
          \<and> (\<exists>t u. map_params_positional tpl pf' oth' s0
                       = Some ((t, call_names before @ call_names after), u))"
      by blast
  qed
  have 3: "map_params_positional ''select '::x' where a = :a'' param_func_qmark None ()
       = Some ((''select '::x' where a = ?'', [''a'']), ())"
    by code_simp
  have 4: "get_variant_qmark_params \<lparr>q_sql = ''select '::x' where a = :a'', q_variants = Map.empty\<rparr>
         [] [''a'' \<mapsto> v]
       = Some (Inr (''select '::x' where a = ?'', [v]))"
    by (simp add: get_variant_qmark_params_def 3 positional_result_def)
  have 5: "map_params_positional ''select ':x' where a = :a'' param_func_qmark None ()
       = Some ((''select ':x' where a = ?'', [''a'']), ())"
    by code_simp
  from 1 2 3 4 5 show ?thesis by blast
qed

theorem quoted_literal_inert_witness:
  "(7 < length ''select ':x' where a = :a''
      \<and> re_match query_quote_re ''select ':x' where a = :a'' 7 = Some 11)
   \<and> re_match query_param_re ''select ':x' where a = :a'' 7 = None
   \<and> match_group ''select ':x' where a = :a'' 7 11 = CHR 0x27 # '':x'' @ [CHR 0x27]
   \<and> map_params_loop (param_func_2 param_func_qmark) (beside_names noop)
         ''select ':x' where a = :a'' 7 True ''select '' ([], ()) =
       (case noop (match_group ''select ':x' where a = :a'' 7 11) () of
          (r, s') \<Rightarrow> map_params_loop (param_func_2 param_func_qmark) (beside_names noop)
                       ''select ':x' where a = :a'' 11 True (''select '' @ r) ([], s'))
   \<and> calls ''select ':x' where a = :a''
       = Some ([OtherCall ''select ''] @ OtherCall (CHR 0x27 # '':x'' @ [CHR 0x27])
                 # [OtherCall '' where a = '', ParamCall ''a''])
   \<and> re_match query_quote_re ''select ':x' where a = :a''
         (length (concat (map call_text [OtherCall ''select '']))) = Some 11
   \<and> calls (drop 11 ''select ':x' where a = :a'')
       = Some [OtherCall '' where a = '', ParamCall ''a'']
   \<and> (\<exists>t u. map_params_positional ''select ':x' where a = :a'' param_func_qmark None ()
                = Some ((t, call_names [OtherCall ''select '']
                            @ call_names [OtherCall '' where a = '', ParamCall ''a'']), u))"
proof -
  have h1: "7 < length ''select ':x' where a = :a''
      \<and> re_match query_quote_re ''select ':x' where a = :a'' 7 = Some 11"
    by code_simp
  have g: "match_group ''select ':x' where a = :a'' 7 11 = CHR 0x27 # '':x'' @ [CHR 0x27]"
    by code_simp
  have h2: "calls ''select ':x' where a = :a''
       = Some ([OtherCall ''select ''] @ OtherCall (CHR 0x27 # '':x'' @ [CHR 0x27])
                 # [OtherCall '' where a = '', ParamCall ''a''])
     \<and> re_match query_quote_re ''select ':x' where a = :a''
         (length (concat (map call_text [OtherCall ''select '']))) = Some 11"
    by code_simp
  from quoted_literal_inert
         [where i = 7 and sql = "''select ':x' where a = :a''" and e = 11
            and pf = param_func_qmark and oth = noop and result = "''select ''"
            and names = "[]" and s = "()"
            and tpl = "''select ':x' where a = :a''" and before = "[OtherCall ''select '']"
            and c = "OtherCall (CHR 0x27 # '':x'' @ [CHR 0x27])"
            and after = "[OtherCall '' where a = '', ParamCall ''a'']" and e' = 11
            and pf' = param_func_qmark and oth' = None and ?s0.0 = "()"
            and v = "0::nat"] h1 g h2
  show ?thesis by blast
qed

lemma lookup_params_find:
  "lookup_params bindings ns =
     (case List.find (\<lambda>n. bindings n = None) ns of
        Some k \<Rightarrow> Inl (KeyError k)
      | None \<Rightarrow> Inr (map (\<lambda>n. the (bindings n)) ns))"
  by (induction ns) (auto split: option.splits)

lemma lookup_params_missing:
  assumes "\<exists>n \<in> set ns. bindings n = None"
  shows "\<exists>k. k \<in> set ns \<and> bindings k = None \<and> lookup_params bindings ns = Inl (KeyError k)"
proof -
  from assms obtain k where k: "List.find (\<lambda>n. bindings n = None) ns = Some k"
    by (cases "List.find (\<lambda>n. bindings n = None) ns") (auto simp: find_None_iff)
  then have "k \<in> set ns \<and> bindings k = None"
    by (auto simp: find_Some_iff)
  with k show ?thesis by (auto simp: lookup_params_find)
qed

lemma lookup_params_bound:
  assumes "\<forall>n \<in> set ns. bindings n \<noteq> None"
  shows "lookup_params bindings ns = Inr (map (\<lambda>n. the (bindings n)) ns)"
proof -
  from assms have "List.find (\<lambda>n. bindings n = None) ns = None"
    by (simp add: find_None_iff)
  then show ?thesis by (simp add: lookup_params_find)
qed

lemma positional_result_names:
  "\<exists>t. positional_result bindings (map_params_positional sql pf oth s)
         = Some (case lookup_params bindings (call_names (calls_from (length sql) sql 0)) of
                   Inl e \<Rightarrow> Inl e | Inr args \<Rightarrow> Inr (t, args))"
proof -
  obtain res s' where "replay pf (case oth of None \<Rightarrow> noop | Some f \<Rightarrow> f)
             (calls_from (length sql) sql 0) ([], s) = (res, s')"
    by (cases "replay pf (case oth of None \<Rightarrow> noop | Some f \<Rightarrow> f)
             (calls_from (length sql) sql 0) ([], s)")
  then have "positional_result bindings (map_params_positional sql pf oth s)
         = Some (case lookup_params bindings (call_names (calls_from (length sql) sql 0)) of
                   Inl e \<Rightarrow> Inl e | Inr args \<Rightarrow> Inr (res, args))"
    by (simp add: map_params_positional_replay positional_result_def)
  then show ?thesis ..
qed

lemma format_text:
  "map_params_positional sql param_func_format (Some other_func_format) () =
     Some ((concat (map (case_call (\<lambda>n. ''%s'') (str_replace CHR ''%'' ''%%''))
                     (calls_from (length sql) sql 0)),
            call_names (calls_from (length sql) sql 0)), ())"
proof -
  have "replay param_func_format other_func_format (calls_from (length sql) sql 0) ([], ())
      = ([] @ concat (map (case_call (\<lambda>n. ''%s'') (str_replace CHR ''%'' ''%%''))
                       (calls_from (length sql) sql 0)), ())"
    by (rule replay_stateless) (simp_all add: param_func_format_def other_func_format_def)
  then show ?thesis by (simp add: map_params_positional_replay)
qed

lemma pyformat_text:
  "map_params sql param_func_pyformat (Some other_func_pyformat) () =
     Some (concat (map (case_call (\<lambda>n. ''%('' @ n @ '')s'') (str_replace CHR ''%'' ''%%''))
                     (calls_from (length sql) sql 0)), ())"
proof -
  have "replay param_func_pyformat other_func_pyformat (calls_from (length sql) sql 0) ([], ())
      = ([] @ concat (map (case_call (\<lambda>n. ''%('' @ n @ '')s'') (str_replace CHR ''%'' ''%%''))
                       (calls_from (length sql) sql 0)), ())"
    by (rule replay_stateless) (simp_all add: param_func_pyformat_def other_func_pyformat_def)
  then show ?thesis by (simp add: map_params_replay)
qed

text \<open>
  C3, as stated, fails on its example: in the format style the template \<open>a %_ :x\<close> becomes
  \<open>a %%_ %s\<close>, not \<open>a %%_ ?\<close>; the placeholder of the format style is \<open>%s\<close>.
\<close>

theorem format_example_counterexample:
  "get_variant_format_params \<lparr>q_sql = ''a %_ :x'', q_variants = Map.empty\<rparr> []
       [''x'' \<mapsto> (1::nat)]
     = Some (Inr (''a %%_ %s'', [1]))
   \<and> get_variant_format_params \<lparr>q_sql = ''a %_ :x'', q_variants = Map.empty\<rparr> []
       [''x'' \<mapsto> (1::nat)]
     \<noteq> Some (Inr (''a %%_ ?'', [1]))"
  by code_simp

text \<open>
  C3, amended. The text in the format and pyformat styles is made of the calls of
  \<open>_map_params\<close> on the selected SQL, whose texts put together are that SQL: a parameter
  becomes \<open>%s\<close> (format) or \<open>%(name)s\<close> (pyformat), and every other piece is passed
  with each of its percent signs doubled. In particular \<open>a %_ :x\<close> with a binding for
  \<open>x\<close> becomes, in the format style, \<open>a %%_ %s\<close> with the one positional argument.
\<close>

theorem format_doubles_percent:
  "(\<exists>cs. calls (get_variant_sql q accepted_variants) = Some cs
        \<and> concat (map call_text cs) = get_variant_sql q accepted_variants
        \<and> get_variant_format_params q accepted_variants bindings
            = Some (case lookup_params bindings (call_names cs) of
                      Inl e \<Rightarrow> Inl e
                    | Inr args \<Rightarrow>
                        Inr (concat (map (\<lambda>c. case c of
                                             ParamCall n \<Rightarrow> ''%s''
                                           | OtherCall x \<Rightarrow> str_replace CHR ''%'' ''%%'' x) cs),
                             args))
        \<and> get_variant_pyformat_params q accepted_variants bindings
            = Some (concat (map (\<lambda>c. case c of
                                   ParamCall n \<Rightarrow> ''%('' @ n @ '')s''
                                 | OtherCall x \<Rightarrow> str_replace CHR ''%'' ''%%'' x) cs),
                    bindings))
   \<and> str_replace CHR ''%'' ''%%'' (xs @ CHR ''%'' # ys)
       = str_replace CHR ''%'' ''%%'' xs @ ''%%'' @ str_replace CHR ''%'' ''%%'' ys
   \<and> (\<forall>vs. get_variant_format_params \<lparr>q_sql = ''a %_ :x'', q_variants = Map.empty\<rparr> []
         [''x'' \<mapsto> v] \<noteq> Some (Inr (''a %%_ ?'', vs)))
   \<and> get_variant_format_params \<lparr>q_sql = ''a %_ :x'', q_variants = Map.empty\<rparr> []
         [''x'' \<mapsto> v]
       = Some (Inr (''a %%_ %s'', [v]))"
proof -
  let ?sql = "get_variant_sql q accepted_variants"
  let ?cs = "calls_from (length ?sql) ?sql 0"
  have a: "calls ?sql = Some ?cs" by (rule calls_eq)
  have b: "concat (map call_text ?cs) = ?sql"
    using calls_from_text [of ?sql 0 "length ?sql"] by simp
  have c: "get_variant_format_params q accepted_variants bindings
            = Some (case lookup_params bindings (call_names ?cs) of
                      Inl e \<Rightarrow> Inl e
                    | Inr args \<Rightarrow>
                        Inr (concat (map (\<lambda>c. case c of
                                             ParamCall n \<Rightarrow> ''%s''
                                           | OtherCall x \<Rightarrow> str_replace CHR ''%'' ''%%'' x) ?cs),
                             args))"
    by (simp add: get_variant_format_params_def format_text positional_result_def)
  have d: "get_variant_pyformat_params q accepted_variants bindings
            = Some (concat (map (\<lambda>c. case c of
                                   ParamCall n \<Rightarrow> ''%('' @ n @ '')s''
                                 | OtherCall x \<Rightarrow> str_replace CHR ''%'' ''%%'' x) ?cs),
                    bindings)"
    by (simp only: get_variant_pyformat_params_def pyformat_text option.case prod.case)
  have e: "str_replace CHR ''%'' ''%%'' (xs @ CHR ''%'' # ys)
       = str_replace CHR ''%'' ''%%'' xs @ ''%%'' @ str_replace CHR ''%'' ''%%'' ys"
    by (simp add: str_replace_def)
  have m: "map_params_positional ''a %_ :x'' param_func_format (Some other_func_format) ()
             = Some ((''a %%_ %s'', [''x'']), ())"
    by code_simp
  have f: "get_variant_format_params \<lparr>q_sql = ''a %_ :x'', q_variants = Map.empty\<rparr> []
         [''x'' \<mapsto> v]
       = Some (Inr (''a %%_ %s'', [v]))"
    by (simp add: get_variant_format_params_def m positional_result_def)
  have g: "\<forall>vs. get_variant_format_params \<lparr>q_sql = ''a %_ :x'', q_variants = Map.empty\<rparr> []
         [''x'' \<mapsto> v] \<noteq> Some (Inr (''a %%_ ?'', vs))"
    by (simp add: f)
  from a b c d e f g show ?thesis by blast
qed


text \<open>
  C2, as stated, fails for the named and pyformat styles: the template \<open>:x\<close> has the
  parameter \<open>x\<close>, the bindings are empty, and both rewritings return their text with the
  bindings, raising nothing.
\<close>

theorem named_missing_counterexample:
  "calls '':x'' = Some [ParamCall ''x'']
   \<and> (Map.empty :: string \<rightharpoonup> nat) ''x'' = None
   \<and> get_variant_named_params \<lparr>q_sql = '':x'', q_variants = Map.empty\<rparr> []
         (Map.empty :: string \<rightharpoonup> nat)
       = Some ('':x'', Map.empty)
   \<and> get_variant_pyformat_params \<lparr>q_sql = '':x'', q_variants = Map.empty\<rparr> []
         (Map.empty :: string \<rightharpoonup> nat)
       = Some (''%(x)s'', Map.empty)"
proof -
  have "calls '':x'' = Some [ParamCall ''x'']" by code_simp
  moreover have "map_params '':x'' param_func_pyformat (Some other_func_pyformat) ()
                   = Some (''%(x)s'', ())"
    by code_simp
  ultimately show ?thesis
    by (simp add: get_variant_named_params_def map_params_named get_variant_pyformat_params_def)
qed

lemma find_split:
  "List.find P ns = Some k \<Longrightarrow> \<exists>pre post. ns = pre @ k # post \<and> (\<forall>n \<in> set pre. \<not> P n) \<and> P k"
proof (induction ns)
  case Nil
  then show ?case by simp
next
  case (Cons a ns)
  show ?case
  proof (cases "P a")
    case True
    with Cons.prems have "a = k" by simp
    with True have "a # ns = [] @ k # ns \<and> (\<forall>n \<in> set []. \<not> P n) \<and> P k" by simp
    then show ?thesis by blast
  next
    case False
    with Cons.prems have "List.find P ns = Some k" by simp
    from Cons.IH [OF this] obtain pre post where
      "ns = pre @ k # post" "\<forall>n \<in> set pre. \<not> P n" "P k" by blast
    with False have "a # ns = (a # pre) @ k # post \<and> (\<forall>n \<in> set (a # pre). \<not> P n) \<and> P k"
      by simp
    then show ?thesis by blast
  qed
qed

lemma lookup_params_first:
  assumes "\<exists>n \<in> set ns. bindings n = None"
  shows "\<exists>pre k post. ns = pre @ k # post \<and> (\<forall>n \<in> set pre. bindings n \<noteq> None)
           \<and> bindings k = None
           \<and> List.find (\<lambda>n. bindings n = None) ns = Some k
           \<and> lookup_params bindings ns = Inl (KeyError k)"
proof -
  from assms obtain k where k: "List.find (\<lambda>n. bindings n = None) ns = Some k"
    by (cases "List.find (\<lambda>n. bindings n = None) ns") (auto simp: find_None_iff)
  from find_split [OF k] obtain pre post where
    "ns = pre @ k # post" "\<forall>n \<in> set pre. bindings n \<noteq> None" "bindings k = None"
    by blast
  moreover have "lookup_params bindings ns = Inl (KeyError k)"
    using k by (simp add: lookup_params_find)
  ultimately show ?thesis using k by blast
qed


text \<open>
  C2, amended. In the qmark, numeric and format styles, a template with a parameter whose
  name has no binding fails with \<open>KeyError\<close> for the first such name: the names before it,
  in the order of the parameters, all have a binding. When every name of the template has a
  binding the three rewritings succeed, with the bound values in the order of the
  parameters, whatever other bindings there are. In the named and pyformat styles no
  binding is looked up: the rewriting returns its text and the bindings as they are and
  never fails.
\<close>

theorem missing_parameter_positional:
  "\<exists>cs. calls (get_variant_sql q accepted_variants) = Some cs
     \<and> ((\<exists>n \<in> set (call_names cs). bindings n = None) \<longrightarrow>
          (\<exists>pre k post. call_names cs = pre @ k # post
             \<and> (\<forall>n \<in> set pre. bindings n \<noteq> None) \<and> bindings k = None
             \<and> List.find (\<lambda>n. bindings n = None) (call_names cs) = Some k
             \<and> get_variant_qmark_params q accepted_variants bindings = Some (Inl (KeyError k))
             \<and> get_variant_numeric_params q accepted_variants bindings = Some (Inl (KeyError k))
             \<and> get_variant_format_params q accepted_variants bindings = Some (Inl (KeyError k))))
     \<and> ((\<forall>n \<in> set (call_names cs). bindings n \<noteq> None) \<longrightarrow>
          (\<exists>t1 t2 t3.
               get_variant_qmark_params q accepted_variants bindings
                 = Some (Inr (t1, map (\<lambda>n. the (bindings n)) (call_names cs)))
             \<and> get_variant_numeric_params q accepted_variants bindings
                 = Some (Inr (t2, map (\<lambda>n. the (bindings n)) (call_names cs)))
             \<and> get_variant_format_params q accepted_variants bindings
                 = Some (Inr (t3, map (\<lambda>n. the (bindings n)) (call_names cs)))))
     \<and> get_variant_named_params q accepted_variants bindings
         = Some (get_variant_sql q accepted_variants, bindings)
     \<and> (\<exists>t. get_variant_pyformat_params q accepted_variants bindings = Some (t, bindings))"
proof -
  let ?sql = "get_variant_sql q accepted_variants"
  let ?cs = "calls_from (length ?sql) ?sql 0"
  let ?ns = "call_names ?cs"
  obtain t1 where q1: "get_variant_qmark_params q accepted_variants bindings
      = Some (case lookup_params bindings ?ns of Inl e \<Rightarrow> Inl e | Inr args \<Rightarrow> Inr (t1, args))"
    using positional_result_names [of bindings ?sql param_func_qmark None "()"]
    by (auto simp: get_variant_qmark_params_def)
  obtain t2 where q2: "get_variant_numeric_params q accepted_variants bindings
      = Some (case lookup_params bindings ?ns of Inl e \<Rightarrow> Inl e | Inr args \<Rightarrow> Inr (t2, args))"
    using positional_result_names [of bindings ?sql param_func_numeric None 0]
    by (auto simp: get_variant_numeric_params_def)
  obtain t3 where q3: "get_variant_format_params q accepted_variants bindings
      = Some (case lookup_params bindings ?ns of Inl e \<Rightarrow> Inl e | Inr args \<Rightarrow> Inr (t3, args))"
    using positional_result_names [of bindings ?sql param_func_format "Some other_func_format" "()"]
    by (auto simp: get_variant_format_params_def)
  have a: "calls ?sql = Some ?cs" by (rule calls_eq)
  have b: "(\<exists>n \<in> set ?ns. bindings n = None) \<longrightarrow>
          (\<exists>pre k post. ?ns = pre @ k # post
             \<and> (\<forall>n \<in> set pre. bindings n \<noteq> None) \<and> bindings k = None
             \<and> List.find (\<lambda>n. bindings n = None) ?ns = Some k
             \<and> get_variant_qmark_params q accepted_variants bindings = Some (Inl (KeyError k))
             \<and> get_variant_numeric_params q accepted_variants bindings = Some (Inl (KeyError k))
             \<and> get_variant_format_params q accepted_variants bindings = Some (Inl (KeyError k)))"
  proof
    assume "\<exists>n \<in> set ?ns. bindings n = None"
    from lookup_params_first [OF this] obtain pre k post where
      f: "?ns = pre @ k # post" "\<forall>n \<in> set pre. bindings n \<noteq> None" "bindings k = None"
        "List.find (\<lambda>n. bindings n = None) ?ns = Some k"
      and l: "lookup_params bindings ?ns = Inl (KeyError k)"
      by blast
    from l q1 q2 q3 have
      "get_variant_qmark_params q accepted_variants bindings = Some (Inl (KeyError k))"
      "get_variant_numeric_params q accepted_variants bindings = Some (Inl (KeyError k))"
      "get_variant_format_params q accepted_variants bindings = Some (Inl (KeyError k))"
      by simp_all
    with f show "\<exists>pre k post. ?ns = pre @ k # post
             \<and> (\<forall>n \<in> set pre. bindings n \<noteq> None) \<and> bindings k = None
             \<and> List.find (\<lambda>n. bindings n = None) ?ns = Some k
             \<and> get_variant_qmark_params q accepted_variants bindings = Some (Inl (KeyError k))
             \<and> get_variant_numeric_params q accepted_variants bindings = Some (Inl (KeyError k))
             \<and> get_variant_format_params q accepted_variants bindings = Some (Inl (KeyError k))"
      by blast
  qed
  have c: "(\<forall>n \<in> set ?ns. bindings n \<noteq> None) \<longrightarrow>
          (\<exists>t1 t2 t3.
               get_variant_qmark_params q accepted_variants bindings
                 = Some (Inr (t1, map (\<lambda>n. the (bindings n)) ?ns))
             \<and> get_variant_numeric_params q accepted_variants bindings
                 = Some (Inr (t2, map (\<lambda>n. the (bindings n)) ?ns))
             \<and> get_variant_format_params q accepted_variants bindings
                 = Some (Inr (t3, map (\<lambda>n. the (bindings n)) ?ns)))"
  proof
    assume "\<forall>n \<in> set ?ns. bindings n \<noteq> None"
    from lookup_params_bound [OF this] show "\<exists>t1 t2 t3.
               get_variant_qmark_params q accepted_variants bindings
                 = Some (Inr (t1, map (\<lambda>n. the (bindings n)) ?ns))
             \<and> get_variant_numeric_params q accepted_variants bindings
                 = Some (Inr (t2, map (\<lambda>n. the (bindings n)) ?ns))
             \<and> get_variant_format_params q accepted_variants bindings
                 = Some (Inr (t3, map (\<lambda>n. the (bindings n)) ?ns))"
      using q1 q2 q3 by simp
  qed
  have d: "get_variant_named_params q accepted_variants bindings = Some (?sql, bindings)"
    by (simp add: get_variant_named_params_def map_params_named)
  have e: "\<exists>t. get_variant_pyformat_params q accepted_variants bindings = Some (t, bindings)"
    by (simp only: get_variant_pyformat_params_def pyformat_text option.case prod.case) blast
  from a b c d e show ?thesis by blast
qed

theorem missing_parameter_positional_witness:
  "[''x'' \<mapsto> 1::nat] ''a'' = None
   \<and> [''x'' \<mapsto> 1::nat] ''b'' = None
   \<and> get_variant_qmark_params \<lparr>q_sql = '':a :x :b'', q_variants = Map.empty\<rparr> []
        [''x'' \<mapsto> 1::nat] = Some (Inl (KeyError ''a''))
   \<and> get_variant_numeric_params \<lparr>q_sql = '':a :x :b'', q_variants = Map.empty\<rparr> []
        [''x'' \<mapsto> 1::nat] = Some (Inl (KeyError ''a''))
   \<and> get_variant_format_params \<lparr>q_sql = '':a :x :b'', q_variants = Map.empty\<rparr> []
        [''x'' \<mapsto> 1::nat] = Some (Inl (KeyError ''a''))
   \<and> [''a'' \<mapsto> 0::nat, ''x'' \<mapsto> 1, ''b'' \<mapsto> 2, ''z'' \<mapsto> 3] ''a'' = Some 0
   \<and> [''a'' \<mapsto> 0::nat, ''x'' \<mapsto> 1, ''b'' \<mapsto> 2, ''z'' \<mapsto> 3] ''x'' = Some 1
   \<and> [''a'' \<mapsto> 0::nat, ''x'' \<mapsto> 1, ''b'' \<mapsto> 2, ''z'' \<mapsto> 3] ''b'' = Some 2
   \<and> (\<exists>t1 t2 t3.
          get_variant_qmark_params \<lparr>q_sql = '':a :x :b'', q_variants = Map.empty\<rparr> []
              [''a'' \<mapsto> 0::nat, ''x'' \<mapsto> 1, ''b'' \<mapsto> 2, ''z'' \<mapsto> 3]
            = Some (Inr (t1, [0, 1, 2]))
        \<and> get_variant_numeric_params \<lparr>q_sql = '':a :x :b'', q_variants = Map.empty\<rparr> []
              [''a'' \<mapsto> 0::nat, ''x'' \<mapsto> 1, ''b'' \<mapsto> 2, ''z'' \<mapsto> 3]
            = Some (Inr (t2, [0, 1, 2]))
        \<and> get_variant_format_params \<lparr>q_sql = '':a :x :b'', q_variants = Map.empty\<rparr> []
              [''a'' \<mapsto> 0::nat, ''x'' \<mapsto> 1, ''b'' \<mapsto> 2, ''z'' \<mapsto> 3]
            = Some (Inr (t3, [0, 1, 2])))"
proof -
  let ?Q = "\<lparr>q_sql = '':a :x :b'', q_variants = Map.empty\<rparr>"
  let ?B1 = "[''x'' \<mapsto> 1::nat]"
  let ?B2 = "[''a'' \<mapsto> 0::nat, ''x'' \<mapsto> 1, ''b'' \<mapsto> 2, ''z'' \<mapsto> 3]"
  have cs: "calls '':a :x :b''
              = Some [ParamCall ''a'', OtherCall '' '', ParamCall ''x'', OtherCall '' '',
                      ParamCall ''b'']"
    by code_simp
  have h1: "\<exists>n \<in> set [''a'', ''x'', ''b'']. ?B1 n = None" by simp
  have h2: "\<forall>n \<in> set [''a'', ''x'', ''b'']. ?B2 n \<noteq> None" by simp
  from missing_parameter_positional [of ?Q "[]" ?B1] obtain cs1 where
    c1: "calls (get_variant_sql ?Q []) = Some cs1"
    and m1: "(\<exists>n \<in> set (call_names cs1). ?B1 n = None) \<longrightarrow>
          (\<exists>pre k post. call_names cs1 = pre @ k # post
             \<and> (\<forall>n \<in> set pre. ?B1 n \<noteq> None) \<and> ?B1 k = None
             \<and> List.find (\<lambda>n. ?B1 n = None) (call_names cs1) = Some k
             \<and> get_variant_qmark_params ?Q [] ?B1 = Some (Inl (KeyError k))
             \<and> get_variant_numeric_params ?Q [] ?B1 = Some (Inl (KeyError k))
             \<and> get_variant_format_params ?Q [] ?B1 = Some (Inl (KeyError k)))"
    by blast
  from c1 cs have n1: "call_names cs1 = [''a'', ''x'', ''b'']" by auto
  from m1 h1 obtain k where
    k: "List.find (\<lambda>n. ?B1 n = None) [''a'', ''x'', ''b''] = Some k"
    and r1: "get_variant_qmark_params ?Q [] ?B1 = Some (Inl (KeyError k))"
      "get_variant_numeric_params ?Q [] ?B1 = Some (Inl (KeyError k))"
      "get_variant_format_params ?Q [] ?B1 = Some (Inl (KeyError k))"
    unfolding n1 by blast
  from k have ka: "k = ''a''" by simp
  from missing_parameter_positional [of ?Q "[]" ?B2] obtain cs2 where
    c2: "calls (get_variant_sql ?Q []) = Some cs2"
    and m2: "(\<forall>n \<in> set (call_names cs2). ?B2 n \<noteq> None) \<longrightarrow>
          (\<exists>t1 t2 t3.
               get_variant_qmark_params ?Q [] ?B2
                 = Some (Inr (t1, map (\<lambda>n. the (?B2 n)) (call_names cs2)))
             \<and> get_variant_numeric_params ?Q [] ?B2
                 = Some (Inr (t2, map (\<lambda>n. the (?B2 n)) (call_names cs2)))
             \<and> get_variant_format_params ?Q [] ?B2
                 = Some (Inr (t3, map (\<lambda>n. the (?B2 n)) (call_names cs2))))"
    by blast
  from c2 cs have n2: "call_names cs2 = [''a'', ''x'', ''b'']" by auto
  have v: "map (\<lambda>n. the (?B2 n)) [''a'', ''x'', ''b''] = [0, 1, 2]" by simp
  from m2 h2 have r2: "\<exists>t1 t2 t3.
          get_variant_qmark_params ?Q [] ?B2 = Some (Inr (t1, [0, 1, 2]))
        \<and> get_variant_numeric_params ?Q [] ?B2 = Some (Inr (t2, [0, 1, 2]))
        \<and> get_variant_format_params ?Q [] ?B2 = Some (Inr (t3, [0, 1, 2]))"
    unfolding n2 v by blast
  have g1: "?B1 ''a'' = None" "?B1 ''b'' = None" by simp_all
  have g2: "?B2 ''a'' = Some 0" "?B2 ''x'' = Some 1" "?B2 ''b'' = Some 2" by simp_all
  from g1 r1 [unfolded ka] g2 r2 show ?thesis by blast
qed

lemma cut_at_split:
  "cut_at x c =
     (if c \<in> set x
      then Some (takeWhile (\<lambda>y. y \<noteq> c) x, tl (dropWhile (\<lambda>y. y \<noteq> c) x))
      else None)"
proof (cases "c \<in> set x")
  case False
  then show ?thesis by (simp add: cut_at_def str_find_def)
next
  case True
  let ?n = "length (takeWhile (\<lambda>y. y \<noteq> c) x)"
  have "take ?n x = takeWhile (\<lambda>y. y \<noteq> c) x"
    by (simp add: takeWhile_eq_take [symmetric])
  moreover have "drop (Suc ?n) x = tl (dropWhile (\<lambda>y. y \<noteq> c) x)"
    by (simp add: dropWhile_eq_drop tl_drop drop_Suc)
  ultimately show ?thesis using True
    by (simp add: cut_at_def str_find_def Let_def nat_add_distrib)
qed

lemma takeWhile_first:
  "c \<notin> set a \<Longrightarrow>
     takeWhile (\<lambda>y. y \<noteq> c) (a @ c # b) = a \<and> dropWhile (\<lambda>y. y \<noteq> c) (a @ c # b) = c # b"
  by (induction a) auto

lemma takeWhile_absent:
  "c \<notin> set x \<Longrightarrow> takeWhile (\<lambda>y. y \<noteq> c) x = x"
  by (induction x) auto

lemma cut_at_first:
  "c \<notin> set a \<Longrightarrow> cut_at (a @ c # b) c = Some (a, b)"
  by (simp add: cut_at_split takeWhile_first)

lemma str_find_first:
  "c \<notin> set a \<Longrightarrow> str_find (a @ c # b) c = int (length a)"
  by (simp add: str_find_def takeWhile_first)

lemma parse_netloc_userinfo:
  assumes "netloc_end (n @ r) ''/?#'' = int (length n)"
    and "n = ui @ ''@'' @ hp" and "CHR ''@'' \<notin> set ui"
  shows "parse_netloc (''//'' @ n @ r) =
           ((Some (takeWhile (\<lambda>c. c \<noteq> CHR '':'') ui),
             (if CHR '':'' \<in> set ui
              then Some (tl (dropWhile (\<lambda>c. c \<noteq> CHR '':'') ui)) else None),
             Some (takeWhile (\<lambda>c. c \<noteq> CHR '':'') hp),
             (if CHR '':'' \<in> set hp
              then Some (tl (dropWhile (\<lambda>c. c \<noteq> CHR '':'') hp)) else None)), r)"
proof -
  have c: "cut_at n CHR ''@'' = Some (ui, hp)"
    using cut_at_first [OF assms(3), of hp] assms(2) by simp
  show ?thesis
    unfolding parse_netloc_def
    by (simp add: assms(1) c cut_at_split [of _ "CHR '':''"] Let_def takeWhile_absent
          del: netloc_end.simps)
qed

text \<open>
  C4, as stated, fails: the network location \<open>a@b@c\<close> has \<open>a@b\<close> before its last
  \<open>@\<close> and \<open>c\<close> after it, and the parser gives the user \<open>a\<close> and the host \<open>b@c\<close>.
\<close>

theorem db_parse_uri_last_at_counterexample:
  "db_parse_uri ''pg://a@b@c/db'' =
     Inr \<lparr>scheme = ''pg'', user = Some ''a'', password = None,
           host = Some ''b@c'', port = None, path = ''/db'',
           params = [], query = [], fragment = None\<rparr>
   \<and> db_parse_uri ''pg://a@b@c/db'' \<noteq>
     Inr \<lparr>scheme = ''pg'', user = Some ''a@b'', password = None,
           host = Some ''c'', port = None, path = ''/db'',
           params = [], query = [], fragment = None\<rparr>"
  by code_simp

lemma str_find_absent: "c \<notin> set x \<Longrightarrow> str_find x c = - 1"
  by (simp add: str_find_def)

lemma netloc_end_first_delimiter:
  assumes n: "CHR ''/'' \<notin> set n" "CHR ''?'' \<notin> set n" "CHR ''#'' \<notin> set n"
    and r: "r = []
            \<or> (\<exists>r'. r = CHR ''/'' # r')
            \<or> (\<exists>r'. r = CHR ''?'' # r' \<and> CHR ''/'' \<notin> set r')
            \<or> (\<exists>r'. r = CHR ''#'' # r' \<and> CHR ''/'' \<notin> set r' \<and> CHR ''?'' \<notin> set r')"
  shows "netloc_end (n @ r) ''/?#'' = int (length n)"
proof -
  from r consider "r = []" | r' where "r = CHR ''/'' # r'"
    | r' where "r = CHR ''?'' # r'" "CHR ''/'' \<notin> set r'"
    | r' where "r = CHR ''#'' # r'" "CHR ''/'' \<notin> set r'" "CHR ''?'' \<notin> set r'"
    by blast
  then show ?thesis
  proof cases
    case 1
    with n show ?thesis by (simp add: str_find_absent)
  next
    case 2
    with n show ?thesis by (simp add: str_find_first)
  next
    case 3
    with n have "str_find (n @ r) CHR ''/'' = - 1" "str_find (n @ r) CHR ''?'' = int (length n)"
      by (simp_all add: str_find_absent str_find_first)
    then show ?thesis by simp
  next
    case 4
    with n have "str_find (n @ r) CHR ''/'' = - 1" "str_find (n @ r) CHR ''?'' = - 1"
      "str_find (n @ r) CHR ''#'' = int (length n)"
      by (simp_all add: str_find_absent str_find_first)
    then show ?thesis by simp
  qed
qed

text \<open>
  C4, amended. Take a URI \<open>s://n r\<close> whose network location \<open>n\<close> has none of
  \<open>/\<close>, \<open>?\<close>, \<open>#\<close> and is followed by nothing or by one of them, where the parser cuts
  the network location off there (the rest starts with \<open>/\<close>, or with \<open>?\<close> and has no
  \<open>/\<close>, or with \<open>#\<close> and has neither). If \<open>n\<close> has an \<open>@\<close>, the user information
  \<open>ui\<close> is what stands before the first \<open>@\<close> of \<open>n\<close> and the host with its port \<open>hp\<close>
  is all that stands after it; the user is \<open>ui\<close> up to its first colon and the password
  what follows that colon, the host is \<open>hp\<close> up to its first colon and the port what
  follows it.
\<close>

theorem db_parse_uri_first_at:
  assumes "CHR '':'' \<notin> set s"
    and "CHR ''/'' \<notin> set n" and "CHR ''?'' \<notin> set n" and "CHR ''#'' \<notin> set n"
    and "r = []
         \<or> (\<exists>r'. r = CHR ''/'' # r')
         \<or> (\<exists>r'. r = CHR ''?'' # r' \<and> CHR ''/'' \<notin> set r')
         \<or> (\<exists>r'. r = CHR ''#'' # r' \<and> CHR ''/'' \<notin> set r' \<and> CHR ''?'' \<notin> set r')"
    and "n = ui @ ''@'' @ hp" and "CHR ''@'' \<notin> set ui"
  shows "\<exists>p. db_parse_uri (s @ ''://'' @ n @ r) = Inr p
           \<and> user p = Some (takeWhile (\<lambda>c. c \<noteq> CHR '':'') ui)
           \<and> password p = (if CHR '':'' \<in> set ui
                            then Some (tl (dropWhile (\<lambda>c. c \<noteq> CHR '':'') ui)) else None)
           \<and> host p = Some (takeWhile (\<lambda>c. c \<noteq> CHR '':'') hp)
           \<and> port p = (if CHR '':'' \<in> set hp
                        then Some (tl (dropWhile (\<lambda>c. c \<noteq> CHR '':'') hp)) else None)"
proof -
  define w where "w = ''//'' @ n @ r"
  have ne: "netloc_end (n @ r) ''/?#'' = int (length n)"
    by (rule netloc_end_first_delimiter [OF assms(2-5)])
  have uri: "s @ ''://'' @ n @ r = s @ CHR '':'' # w" by (simp add: w_def)
  have f: "str_find (s @ CHR '':'' # w) CHR '':'' = int (length s)"
    by (rule str_find_first [OF assms(1)])
  have sw: "startswith w ''//''" by (simp add: w_def startswith_def)
  have pn: "parse_netloc w =
           ((Some (takeWhile (\<lambda>c. c \<noteq> CHR '':'') ui),
             (if CHR '':'' \<in> set ui
              then Some (tl (dropWhile (\<lambda>c. c \<noteq> CHR '':'') ui)) else None),
             Some (takeWhile (\<lambda>c. c \<noteq> CHR '':'') hp),
             (if CHR '':'' \<in> set hp
              then Some (tl (dropWhile (\<lambda>c. c \<noteq> CHR '':'') hp)) else None)), r)"
    unfolding w_def by (rule parse_netloc_userinfo [OF ne assms(6-7)])
  show ?thesis
    unfolding uri db_parse_uri_def
    by (simp add: f sw pn Let_def case_prod_beta nat_add_distrib)
qed

theorem db_parse_uri_first_at_witness:
  "CHR '':'' \<notin> set ''pg''
   \<and> CHR ''/'' \<notin> set ''al:pw:x@h:1@y'' \<and> CHR ''?'' \<notin> set ''al:pw:x@h:1@y''
   \<and> CHR ''#'' \<notin> set ''al:pw:x@h:1@y''
   \<and> (\<exists>r'. ''?a=b#c'' = CHR ''?'' # r' \<and> CHR ''/'' \<notin> set r')
   \<and> ''al:pw:x@h:1@y'' = ''al:pw:x'' @ ''@'' @ ''h:1@y''
   \<and> CHR ''@'' \<notin> set ''al:pw:x''
   \<and> (\<exists>p. db_parse_uri (''pg'' @ ''://'' @ ''al:pw:x@h:1@y'' @ ''?a=b#c'') = Inr p
           \<and> user p = Some ''al'' \<and> password p = Some ''pw:x''
           \<and> host p = Some ''h'' \<and> port p = Some ''1@y'')"
proof -
  have h1: "CHR '':'' \<notin> set ''pg''" by simp
  have h2: "CHR ''/'' \<notin> set ''al:pw:x@h:1@y''" "CHR ''?'' \<notin> set ''al:pw:x@h:1@y''"
    "CHR ''#'' \<notin> set ''al:pw:x@h:1@y''" by simp_all
  have h3: "\<exists>r'. ''?a=b#c'' = CHR ''?'' # r' \<and> CHR ''/'' \<notin> set r'" by simp
  then have h3': "''?a=b#c'' = []
         \<or> (\<exists>r'. ''?a=b#c'' = CHR ''/'' # r')
         \<or> (\<exists>r'. ''?a=b#c'' = CHR ''?'' # r' \<and> CHR ''/'' \<notin> set r')
         \<or> (\<exists>r'. ''?a=b#c'' = CHR ''#'' # r' \<and> CHR ''/'' \<notin> set r' \<and> CHR ''?'' \<notin> set r')"
    by blast
  have h4: "''al:pw:x@h:1@y'' = ''al:pw:x'' @ ''@'' @ ''h:1@y''" by simp
  have h5: "CHR ''@'' \<notin> set ''al:pw:x''" by simp
  have t: "takeWhile (\<lambda>c. c \<noteq> CHR '':'') ''al:pw:x'' = ''al''"
    "(if CHR '':'' \<in> set ''al:pw:x''
      then Some (tl (dropWhile (\<lambda>c. c \<noteq> CHR '':'') ''al:pw:x'')) else None) = Some ''pw:x''"
    "takeWhile (\<lambda>c. c \<noteq> CHR '':'') ''h:1@y'' = ''h''"
    "(if CHR '':'' \<in> set ''h:1@y''
      then Some (tl (dropWhile (\<lambda>c. c \<noteq> CHR '':'') ''h:1@y'')) else None) = Some ''1@y''"
    by simp_all
  have "\<exists>p. db_parse_uri (''pg'' @ ''://'' @ ''al:pw:x@h:1@y'' @ ''?a=b#c'') = Inr p
           \<and> user p = Some ''al'' \<and> password p = Some ''pw:x''
           \<and> host p = Some ''h'' \<and> port p = Some ''1@y''"
    using db_parse_uri_first_at [OF h1 h2 h3' h4 h5] unfolding t .
  with h1 h2 h3 h4 h5 show ?thesis by blast
qed

text \<open>
  C7. Parsing \<open>pg://alice:secret@dbhost:5432/mydb;user=bob\<close> gives the scheme \<open>pg\<close>, the
  user \<open>alice\<close>, the password \<open>secret\<close>, the host \<open>dbhost\<close>, the port \<open>5432\<close>, the
  path \<open>/mydb\<close> and the one parameter \<open>("user", "bob")\<close>; there is no query and no fragment.
\<close>

theorem db_parse_uri_example:
  "db_parse_uri ''pg://alice:secret@dbhost:5432/mydb;user=bob'' =
     Inr \<lparr>scheme = ''pg'', user = Some ''alice'', password = Some ''secret'',
           host = Some ''dbhost'', port = Some ''5432'', path = ''/mydb'',
           params = [[''user'', ''bob'']], query = [], fragment = None\<rparr>"
  by code_simp

section \<open>Properties of query templates\<close>

text \<open>
  C8. \<open>get_variant_sql\<close> returns the variant of the first element of the accepted list, in
  the order of the list, that is a key of the variants of the query, and the default SQL
  when no element of the list is a key.
\<close>

theorem get_variant_sql_first_accepted:
  "get_variant_sql q accepted_variants =
     (case List.find (\<lambda>v. v \<in> dom (q_variants q)) accepted_variants of
        None \<Rightarrow> q_sql q
      | Some v \<Rightarrow> the (q_variants q v))"
  by (induction accepted_variants) (auto split: option.splits)

section \<open>Properties of the driver registry\<close>

lemma register_driver_distinct:
  "distinct (drivers st) \<Longrightarrow> distinct (drivers (register_driver d st))"
  by (simp add: register_driver_def)

lemma fold_register_distinct:
  "distinct (drivers st) \<Longrightarrow> distinct (drivers (fold register_driver found st))"
  by (induction found arbitrary: st) (simp_all add: register_driver_distinct)

lemma apply_reg_op_distinct:
  "distinct (drivers st) \<Longrightarrow> distinct (drivers (apply_reg_op found x st))"
  by (cases x)
     (auto simp: register_driver_distinct unregister_driver_def get_drivers_def drivers_init_def
                 fold_register_distinct Let_def)

lemma fold_reg_ops_distinct:
  "distinct (drivers st) \<Longrightarrow> distinct (drivers (fold (apply_reg_op found) ops st))"
  by (induction ops arbitrary: st) (simp_all add: apply_reg_op_distinct)

text \<open>
  C10. Registering a driver that is registered leaves the registry as it is, so registering
  twice is registering once; after any run of registry operations from the empty registry
  the list has no duplicates; and a registration keeps the drivers that were there, in their
  order, at the front of the list.
\<close>

theorem register_driver_idempotent:
  "(d \<in> set (drivers st) \<longrightarrow> register_driver d st = st)
   \<and> register_driver d (register_driver d st) = register_driver d st
   \<and> distinct (drivers (run_reg_ops found ops))
   \<and> prefix (drivers st) (drivers (register_driver d st))"
  by (auto simp: register_driver_def run_reg_ops_def initial_registry_def fold_reg_ops_distinct)

theorem register_driver_idempotent_witness:
  "(2::nat) \<in> set (drivers \<lparr>drivers = [1::nat, 2, 3], drivers_init_done = True\<rparr>)
   \<and> register_driver (2::nat) \<lparr>drivers = [1::nat, 2, 3], drivers_init_done = True\<rparr>
       = \<lparr>drivers = [1::nat, 2, 3], drivers_init_done = True\<rparr>
   \<and> distinct (drivers (run_reg_ops [5::nat, 5, 6]
        [Register 6, GetDrivers, Register 5, Unregister 7, Unregister 6, Register 6]))"
  using register_driver_idempotent
    [of "2::nat" "\<lparr>drivers = [1::nat, 2, 3], drivers_init_done = True\<rparr>" "[5::nat, 5, 6]"
        "[Register 6, GetDrivers, Register 5, Unregister 7, Unregister 6, Register 6]"]
  by simp

text \<open>
  C1. With one registered driver that accepts the scheme and whose \<open>connect\<close> returns
  \<open>None\<close>, \<open>db_connect\<close> returns \<open>None\<close> and raises nothing; \<open>db_create_pool\<close>, on the
  same registry and URI, raises the no-driver exception.
\<close>

theorem db_connect_returns_none:
  "db_connect declining_driver [] \<lparr>drivers = [0], drivers_init_done = True\<rparr> ''x:db'' None None
     = (Inr None, \<lparr>drivers = [0], drivers_init_done = True\<rparr>)
   \<and> db_create_pool declining_driver [] \<lparr>drivers = [0], drivers_init_done = True\<rparr> ''x:db'' None None ()
     = (Inl (sql_no_driver_exception ''x''), \<lparr>drivers = [0], drivers_init_done = True\<rparr>)"
  by code_simp

end
